theory Spec2Isabelle
  imports Main "HOL-Library.Word"
begin

unbundle bit_operations_syntax

section \<open>Memory, words and the heap state\<close>

text \<open>
  The allocator of \<open>mm_backup.c\<close>: an implicit free list with boundary tags, first-fit
  placement and coalescing. Its words are those of a 32-bit build, as its header comment
  draws them (bits 31 to 0) and as \<open>WSIZE = 4\<close> requires of \<open>size_t\<close>: a \<open>size_t\<close> is a
  32-bit word whose arithmetic wraps around, and \<open>GET\<close> and \<open>PUT\<close> move four bytes, least
  significant first. Memory is a map from addresses to bytes. An address is an integer,
  and pointer arithmetic is integer arithmetic: it does not wrap around (C leaves
  arithmetic that leaves the heap undefined). A pointer that may be \<open>NULL\<close> is an
  \<open>addr option\<close>.

  Names are those of the source. \<open>MAX_int\<close> is \<open>MAX\<close>, which compares its arguments as
  \<open>int\<close>; the \<open>int\<close> flag of \<open>PACK\<close> and the \<open>int\<close> result of \<open>GET_ALLOC\<close> are given by
  their 32-bit patterns.
\<close>

type_synonym addr = int
type_synonym byte = "8 word"
type_synonym size_t = "32 word"
type_synonym memory = "addr \<Rightarrow> byte"

abbreviation (input) WSIZE :: "'a::numeral" where "WSIZE \<equiv> 4"
abbreviation (input) DSIZE :: "'a::numeral" where "DSIZE \<equiv> 8"
abbreviation (input) CHUNKSIZE :: size_t where "CHUNKSIZE \<equiv> push_bit 12 1"
abbreviation (input) OVERHEAD :: "'a::numeral" where "OVERHEAD \<equiv> 8"

definition MAX_int :: "size_t \<Rightarrow> size_t \<Rightarrow> size_t" where
  "MAX_int x y = (if sint x > sint y then x else y)"

definition PACK :: "size_t \<Rightarrow> size_t \<Rightarrow> size_t" where
  "PACK sz alloc = sz OR (alloc AND 1)"

definition GET :: "memory \<Rightarrow> addr \<Rightarrow> size_t" where
  "GET m p = ucast (m p) OR push_bit 8 (ucast (m (p + 1)))
     OR push_bit 16 (ucast (m (p + 2))) OR push_bit 24 (ucast (m (p + 3)))"

definition PUT :: "memory \<Rightarrow> addr \<Rightarrow> size_t \<Rightarrow> memory" where
  "PUT m p val = m(p := ucast val, p + 1 := ucast (drop_bit 8 val),
     p + 2 := ucast (drop_bit 16 val), p + 3 := ucast (drop_bit 24 val))"

definition GET_SIZE :: "memory \<Rightarrow> addr \<Rightarrow> size_t" where
  "GET_SIZE m p = GET m p AND NOT 7"

definition GET_ALLOC :: "memory \<Rightarrow> addr \<Rightarrow> size_t" where
  "GET_ALLOC m p = GET m p AND 1"

definition HDRP :: "addr \<Rightarrow> addr" where
  "HDRP bp = bp - WSIZE"

definition FTRP :: "memory \<Rightarrow> addr \<Rightarrow> addr" where
  "FTRP m bp = bp + uint (GET_SIZE m (HDRP bp)) - DSIZE"

definition NEXT_BLKP :: "memory \<Rightarrow> addr \<Rightarrow> addr" where
  "NEXT_BLKP m bp = bp + uint (GET_SIZE m (bp - WSIZE))"

definition PREV_BLKP :: "memory \<Rightarrow> addr \<Rightarrow> addr" where
  "PREV_BLKP m bp = bp - uint (GET_SIZE m (bp - DSIZE))"


text \<open>The allocator's globals and the external heap-growth service, as one state.\<close>

record heap_state =
  mem :: memory
  mem_brk :: addr
  mem_max_addr :: addr
  heap_listp :: addr
  stdout :: "string list"

text \<open>
  Modelled from the spec: \<open>mem_sbrk\<close> (memlib.c is not part of the sources). It is the
  append-only growth primitive \<open>request(n: bytes) \<rightarrow> base_reference | failure\<close>: it either
  returns the base of a newly appended region of \<open>n\<close> bytes or signals exhaustion, and it
  never moves memory that was granted before. \<open>None\<close> is the failure signal, which both
  callers recognise; their tests, \<open>== NULL\<close> in \<open>mm_init\<close> and \<open>(int) ... < 0\<close> in
  \<open>extend_heap\<close>, are applied to a granted address as well.
\<close>

definition mem_sbrk :: "heap_state \<Rightarrow> size_t \<Rightarrow> (addr \<times> heap_state) option" where
  "mem_sbrk s incr =
     (if mem_brk s + uint incr \<le> mem_max_addr s
      then Some (mem_brk s, s\<lparr>mem_brk := mem_brk s + uint incr\<rparr>)
      else None)"

text \<open>
  \<open>memcpy\<close> of the C library: \<open>n\<close> bytes from \<open>src\<close> to \<open>dst\<close>, all read before any
  is written (the two regions do not overlap where C defines the call).
\<close>

definition memcpy :: "memory \<Rightarrow> addr \<Rightarrow> addr \<Rightarrow> size_t \<Rightarrow> memory" where
  "memcpy m dst src n = (\<lambda>a. if dst \<le> a \<and> a < dst + uint n then m (src + (a - dst)) else m a)"

section \<open>The allocator\<close>

definition coalesce :: "memory \<Rightarrow> addr \<Rightarrow> addr \<times> memory" where
  "coalesce m bp =
     (let prev_alloc = GET_ALLOC m (FTRP m (PREV_BLKP m bp));
          next_alloc = GET_ALLOC m (HDRP (NEXT_BLKP m bp));
          sz = GET_SIZE m (HDRP bp)
      in if prev_alloc \<noteq> 0 \<and> next_alloc \<noteq> 0 then (bp, m)
         else if prev_alloc \<noteq> 0 \<and> \<not> next_alloc \<noteq> 0 then
           (let sz = sz + GET_SIZE m (HDRP (NEXT_BLKP m bp));
                m1 = PUT m (HDRP bp) (PACK sz 0);
                m2 = PUT m1 (FTRP m1 bp) (PACK sz 0)
            in (bp, m2))
         else if \<not> prev_alloc \<noteq> 0 \<and> next_alloc \<noteq> 0 then
           (let sz = sz + GET_SIZE m (HDRP (PREV_BLKP m bp));
                m1 = PUT m (FTRP m bp) (PACK sz 0);
                m2 = PUT m1 (HDRP (PREV_BLKP m1 bp)) (PACK sz 0)
            in (PREV_BLKP m2 bp, m2))
         else
           (let sz = GET_SIZE m (HDRP (PREV_BLKP m bp)) + GET_SIZE m (FTRP m (NEXT_BLKP m bp));
                m1 = PUT m (HDRP (PREV_BLKP m bp)) (PACK sz 0);
                m2 = PUT m1 (FTRP m1 (NEXT_BLKP m1 bp)) (PACK sz 0)
            in (PREV_BLKP m2 bp, m2)))"

text \<open>The value of a pointer converted to \<open>int\<close>, as in \<open>(int)(bp = mem_sbrk(size))\<close>.\<close>

definition int_of_ptr :: "addr \<Rightarrow> int" where
  "int_of_ptr p = sint (word_of_int p :: 32 word)"

definition extend_heap :: "heap_state \<Rightarrow> size_t \<Rightarrow> addr option \<times> heap_state" where
  "extend_heap s words =
     (let sz = (if words mod 2 \<noteq> 0 then (words + 1) * WSIZE else words * WSIZE)
      in case mem_sbrk s sz of
           None \<Rightarrow> (None, s)
         | Some (bp, s1) \<Rightarrow>
             if int_of_ptr bp < 0 then (None, s1)
             else
               (let m1 = PUT (mem s1) (HDRP bp) (PACK sz 0);
                    m2 = PUT m1 (FTRP m1 bp) (PACK sz 0);
                    m3 = PUT m2 (HDRP (NEXT_BLKP m2 bp)) (PACK 0 1);
                    (r, m4) = coalesce m3 bp
                in (Some r, s1\<lparr>mem := m4\<rparr>)))"

definition mm_init :: "heap_state \<Rightarrow> int \<times> heap_state" where
  "mm_init s =
     (case mem_sbrk s (4 * WSIZE) of
        None \<Rightarrow> (- 1, s\<lparr>heap_listp := 0\<rparr>)
      | Some (p, s1) \<Rightarrow>
          if p = 0 then (- 1, s1\<lparr>heap_listp := 0\<rparr>)
          else
            (let m1 = PUT (mem s1) p 0;
                 m2 = PUT m1 (p + WSIZE) (PACK OVERHEAD 1);
                 m3 = PUT m2 (p + DSIZE) (PACK OVERHEAD 1);
                 m4 = PUT m3 (p + WSIZE + DSIZE) (PACK 0 1);
                 s2 = s1\<lparr>mem := m4, heap_listp := p + DSIZE\<rparr>
             in case extend_heap s2 (CHUNKSIZE div WSIZE) of
                  (None, s3) \<Rightarrow> (- 1, s3)
                | (Some bp, s3) \<Rightarrow> (0, s3)))"

text \<open>
  The scan of \<open>find_fit\<close> follows size fields through memory and need not end, so the
  loop is a partial function: \<open>None\<close> is a scan that never returns, \<open>Some None\<close> is the
  result \<open>NULL\<close> (no fit), \<open>Some (Some bp)\<close> the block found.
\<close>

partial_function (option) find_fit_loop :: "memory \<Rightarrow> size_t \<Rightarrow> addr \<Rightarrow> addr option option" where
  "find_fit_loop m adjsize bp =
     (if GET_SIZE m (HDRP bp) > 0
      then (if \<not> GET_ALLOC m (HDRP bp) \<noteq> 0 \<and> adjsize \<le> GET_SIZE m (HDRP bp)
            then Some (Some bp)
            else find_fit_loop m adjsize (NEXT_BLKP m bp))
      else Some None)"

declare find_fit_loop.simps [code]

definition find_fit :: "heap_state \<Rightarrow> size_t \<Rightarrow> addr option option" where
  "find_fit s adjsize = find_fit_loop (mem s) adjsize (heap_listp s)"

text \<open>\<open>mm_free\<close>, on the memory and on the state.\<close>

definition mm_free_mem :: "memory \<Rightarrow> addr \<Rightarrow> memory" where
  "mm_free_mem m bp =
     (let sz = GET_SIZE m (HDRP bp);
          m1 = PUT m (HDRP bp) (PACK sz 0);
          m2 = PUT m1 (FTRP m1 bp) (PACK sz 0)
      in snd (coalesce m2 bp))"

definition mm_free :: "heap_state \<Rightarrow> addr \<Rightarrow> heap_state" where
  "mm_free s bp = s\<lparr>mem := mm_free_mem (mem s) bp\<rparr>"

definition place :: "memory \<Rightarrow> addr \<Rightarrow> size_t \<Rightarrow> memory" where
  "place m bp adjsize =
     (let chunksize = GET_SIZE m (HDRP bp)
      in if chunksize - adjsize \<ge> DSIZE + OVERHEAD then
           (let m1 = PUT m (HDRP bp) (PACK adjsize 1);
                m2 = PUT m1 (FTRP m1 bp) (PACK adjsize 1);
                bp = NEXT_BLKP m2 bp;
                m3 = PUT m2 (HDRP bp) (PACK (chunksize - adjsize) 0);
                m4 = PUT m3 (FTRP m3 bp) (PACK (chunksize - adjsize) 0)
            in m4)
         else
           (let m1 = PUT m (HDRP bp) (PACK chunksize 1);
                m2 = PUT m1 (FTRP m1 bp) (PACK chunksize 1)
            in m2))"

text \<open>The size adjustment of \<open>mm_malloc\<close>, in the unsigned 32-bit arithmetic of \<open>size_t\<close>.\<close>

definition adjusted_size :: "size_t \<Rightarrow> size_t" where
  "adjusted_size sz =
     (if sz \<le> DSIZE then DSIZE + OVERHEAD
      else DSIZE * ((sz + OVERHEAD + (DSIZE - 1)) div DSIZE))"

definition mm_malloc :: "heap_state \<Rightarrow> size_t \<Rightarrow> (addr option \<times> heap_state) option" where
  "mm_malloc s sz =
     (if sz \<le> 0 then Some (None, s)
      else
        (let adjsize = adjusted_size sz
         in case find_fit s adjsize of
              None \<Rightarrow> None
            | Some (Some bp) \<Rightarrow> Some (Some bp, s\<lparr>mem := place (mem s) bp adjsize\<rparr>)
            | Some None \<Rightarrow>
                (let extendsize = MAX_int adjsize CHUNKSIZE
                 in case extend_heap s (extendsize div WSIZE) of
                      (None, s1) \<Rightarrow> Some (None, s1)
                    | (Some bp, s1) \<Rightarrow> Some (Some bp, s1\<lparr>mem := place (mem s1) bp adjsize\<rparr>))))"

text \<open>
  \<open>mm_realloc\<close> either returns a pointer or leaves through \<open>exit(1)\<close>, after printing
  its message.
\<close>

datatype outcome = Returned addr heap_state | Exited int heap_state

definition mm_realloc :: "heap_state \<Rightarrow> addr \<Rightarrow> size_t \<Rightarrow> outcome option" where
  "mm_realloc s ptr sz =
     (case mm_malloc s sz of
        None \<Rightarrow> None
      | Some (None, s1) \<Rightarrow>
          Some (Exited 1 (s1\<lparr>stdout := stdout s1 @ [''ERROR: mm_malloc failed in mm_realloc'' @ [CHR 0x0A]]\<rparr>))
      | Some (Some newp, s1) \<Rightarrow>
          (let copySize = GET_SIZE (mem s1) (HDRP ptr);
               copySize = (if sz < copySize then sz else copySize);
               s2 = s1\<lparr>mem := memcpy (mem s1) newp ptr copySize\<rparr>
           in Some (Returned newp (mm_free s2 ptr))))"

text \<open>The test of \<open>checkblock\<close> that a block's header equals its footer.\<close>

definition header_matches_footer :: "memory \<Rightarrow> addr \<Rightarrow> bool" where
  "header_matches_footer m bp \<longleftrightarrow> \<not> GET m (HDRP bp) \<noteq> GET m (FTRP m bp)"

section \<open>Walking the implicit list\<close>

text \<open>
  \<open>block_chain m bp bs\<close>: following \<open>NEXT_BLKP\<close> from \<open>bp\<close>, the blocks met before the
  first block of size 0 (the epilogue) are exactly \<open>bs\<close>, in this order.
\<close>

fun block_chain :: "memory \<Rightarrow> addr \<Rightarrow> addr list \<Rightarrow> bool" where
  "block_chain m bp [] \<longleftrightarrow> \<not> GET_SIZE m (HDRP bp) > 0"
| "block_chain m bp (b # bs) \<longleftrightarrow>
     b = bp \<and> GET_SIZE m (HDRP bp) > 0 \<and> block_chain m (NEXT_BLKP m bp) bs"

text \<open>The test of \<open>find_fit\<close> on one block: free, and large enough.\<close>

definition fits :: "memory \<Rightarrow> size_t \<Rightarrow> addr \<Rightarrow> bool" where
  "fits m adjsize bp \<longleftrightarrow> \<not> GET_ALLOC m (HDRP bp) \<noteq> 0 \<and> adjsize \<le> GET_SIZE m (HDRP bp)"

section \<open>Well-formed heaps\<close>

text \<open>
  A heap is described by the list of its blocks, each with its size and its allocation
  flag. \<open>layout bp bs\<close> places the blocks one after the other from the payload address
  \<open>bp\<close>; \<open>block_ok\<close> says that a block's header and footer both hold its packed size
  and flag; \<open>wf_heap s bs\<close> says that the heap of \<open>s\<close> is the prologue followed by the
  blocks \<open>bs\<close> and by the epilogue header, which ends at \<open>mem_brk\<close>, all within a 32-bit
  address space (the padding word and the prologue header lie in the 8 bytes before
  \<open>heap_listp\<close>).
\<close>

type_synonym blk = "size_t \<times> bool"

definition total :: "blk list \<Rightarrow> int" where
  "total bs = sum_list (map (\<lambda>b. uint (fst b)) bs)"

fun layout :: "addr \<Rightarrow> blk list \<Rightarrow> (addr \<times> size_t \<times> bool) list" where
  "layout bp [] = []"
| "layout bp ((sz, al) # bs) = (bp, sz, al) # layout (bp + uint sz) bs"

definition block_ok :: "memory \<Rightarrow> addr \<times> size_t \<times> bool \<Rightarrow> bool" where
  "block_ok m b =
     (case b of (bp, sz, al) \<Rightarrow>
        sz AND 7 = 0 \<and> 0 < sz \<and> GET m (HDRP bp) = PACK sz (of_bool al) \<and>
        GET m (bp + uint sz - DSIZE) = PACK sz (of_bool al))"

definition wf_heap :: "heap_state \<Rightarrow> blk list \<Rightarrow> bool" where
  "wf_heap s bs \<longleftrightarrow>
     list_all (block_ok (mem s)) (layout (heap_listp s) ((OVERHEAD, True) # bs)) \<and>
     GET (mem s) (HDRP (mem_brk s)) = PACK 0 1 \<and>
     mem_brk s = heap_listp s + DSIZE + total bs \<and>
     DSIZE \<le> heap_listp s \<and> mem_brk s \<le> mem_max_addr s \<and> mem_max_addr s \<le> 2 ^ 32"

fun first_fit :: "addr \<Rightarrow> size_t \<Rightarrow> blk list \<Rightarrow> addr option" where
  "first_fit bp adjsize [] = None"
| "first_fit bp adjsize ((sz, al) # bs) =
     (if \<not> al \<and> adjsize \<le> sz then Some bp else first_fit (bp + uint sz) adjsize bs)"

text \<open>
  The blocks that \<open>place\<close> leaves where a free block of size \<open>c\<close> was, for a request
  of adjusted size \<open>a\<close>.
\<close>

definition placed :: "size_t \<Rightarrow> size_t \<Rightarrow> blk list" where
  "placed c a = (if 16 \<le> uint c - uint a then [(a, True), (c - a, False)] else [(c, True)])"

text \<open>
  \<open>keeps_allocated s bs s1 bs1\<close>: every allocated block of the heap \<open>bs\<close> of \<open>s\<close> is an
  allocated block of the heap \<open>bs1\<close> of \<open>s1\<close>, and no byte of it, from its header to its
  footer, has changed.
\<close>

definition keeps_allocated :: "heap_state \<Rightarrow> blk list \<Rightarrow> heap_state \<Rightarrow> blk list \<Rightarrow> bool" where
  "keeps_allocated s bs s1 bs1 \<longleftrightarrow>
     heap_listp s1 = heap_listp s \<and>
     (\<forall>q z. (q, z, True) \<in> set (layout (heap_listp s + 8) bs) \<longrightarrow>
        (q, z, True) \<in> set (layout (heap_listp s + 8) bs1) \<and>
        (\<forall>x. q - 4 \<le> x \<and> x < q + uint z - 4 \<longrightarrow> mem s1 x = mem s x))"

section \<open>A concrete run\<close>

text \<open>
  A small heap for the concrete evaluations: the growth primitive starts at address
  65536 with one megabyte to give, and memory is all zero. The states \<open>heap1\<close> to
  \<open>heap8\<close> are those of the run
  \<open>mm_init(); a = mm_malloc(8); b = mm_malloc(8); c = mm_malloc(8); d = mm_malloc(8);
  mm_free(a); mm_free(c); mm_free(b)\<close>, where \<open>a = 65552\<close>, \<open>b = 65568\<close>,
  \<open>c = 65584\<close> and \<open>d = 65600\<close>.
\<close>

definition heap0 :: heap_state where
  "heap0 = \<lparr>mem = (\<lambda>_. 0), mem_brk = 65536, mem_max_addr = 65536 + 1048576,
     heap_listp = 0, stdout = []\<rparr>"

definition heap1 :: heap_state where
  "heap1 = \<lparr>mem = PUT (PUT (PUT (PUT (PUT (PUT (PUT (\<lambda>_. 0)
       65536 0) 65540 9) 65544 9) 65548 1) 65548 4096) 69640 4096) 69644 1,
     mem_brk = 69648, mem_max_addr = 1114112, heap_listp = 65544, stdout = []\<rparr>"

definition heap2 :: heap_state where
  "heap2 = heap1\<lparr>mem := PUT (PUT (PUT (PUT (mem heap1)
       65548 17) 65560 17) 65564 4080) 69640 4080\<rparr>"

definition heap3 :: heap_state where
  "heap3 = heap2\<lparr>mem := PUT (PUT (PUT (PUT (mem heap2)
       65564 17) 65576 17) 65580 4064) 69640 4064\<rparr>"

definition heap4 :: heap_state where
  "heap4 = heap3\<lparr>mem := PUT (PUT (PUT (PUT (mem heap3)
       65580 17) 65592 17) 65596 4048) 69640 4048\<rparr>"

definition heap5 :: heap_state where
  "heap5 = heap4\<lparr>mem := PUT (PUT (PUT (PUT (mem heap4)
       65596 17) 65608 17) 65612 4032) 69640 4032\<rparr>"

definition heap6 :: heap_state where
  "heap6 = heap5\<lparr>mem := PUT (PUT (mem heap5) 65548 16) 65560 16\<rparr>"

definition heap7 :: heap_state where
  "heap7 = heap6\<lparr>mem := PUT (PUT (mem heap6) 65580 16) 65592 16\<rparr>"

text \<open>
  The memory of \<open>heap7\<close> once \<open>mm_free\<close> has marked \<open>b\<close> free and before it
  calls \<open>coalesce\<close>.
\<close>

definition mem7_b_freed :: memory where
  "mem7_b_freed = PUT (PUT (mem heap7) 65564 16) 65576 16"

definition heap8 :: heap_state where
  "heap8 = heap7\<lparr>mem := PUT (PUT mem7_b_freed 65548 32) 65592 32\<rparr>"

text \<open>
  A second run, for \<open>mm_realloc\<close>. In \<open>heap2w\<close> the client has written eight bytes into
  the payload of \<open>a\<close>; \<open>heap2m\<close> is the state after the \<open>mm_malloc(16)\<close> inside
  \<open>mm_realloc(a, 16)\<close>, which returns 65568; \<open>mem2_copied\<close> is its memory after the
  \<open>memcpy\<close>, and \<open>heap2r\<close> the state in which \<open>mm_realloc\<close> returns.
\<close>

definition heap2w :: heap_state where
  "heap2w = heap2\<lparr>mem := PUT (PUT (mem heap2) 65552 0x44434241) 65556 0x48474645\<rparr>"

definition heap2m :: heap_state where
  "heap2m = heap2w\<lparr>mem := PUT (PUT (PUT (PUT (mem heap2w)
       65564 25) 65584 25) 65588 4056) 69640 4056\<rparr>"

definition mem2_copied :: memory where
  "mem2_copied = memcpy (mem heap2m) 65568 65552 16"

definition heap2r :: heap_state where
  "heap2r = heap2m\<lparr>mem := PUT (PUT mem2_copied 65548 16) 65560 16\<rparr>"

text \<open>
  A third run: \<open>mm_init(); a = mm_malloc(16); b = mm_malloc(8); d = mm_malloc(8);
  mm_free(a)\<close> gives \<open>heap_b4\<close>, where \<open>a = 65552\<close> is a free block of 24 bytes before
  the allocated blocks \<open>b = 65576\<close> and \<open>d = 65592\<close>. Then \<open>mm_realloc(b, 0xFFFFFFFF)\<close>:
  \<open>heap_b5\<close> is the state after its \<open>mm_malloc\<close>, which returns 65552, \<open>mem_b_copied\<close>
  the memory after the \<open>memcpy\<close>, \<open>mem_b_freed\<close> the memory once \<open>mm_free\<close> has marked
  \<open>b\<close> free, and \<open>heap_b6\<close> the state in which \<open>mm_realloc\<close> returns.
\<close>

definition heap_b1 :: heap_state where
  "heap_b1 = heap1\<lparr>mem := PUT (PUT (PUT (PUT (mem heap1)
       65548 25) 65568 25) 65572 4072) 69640 4072\<rparr>"

definition heap_b2 :: heap_state where
  "heap_b2 = heap_b1\<lparr>mem := PUT (PUT (PUT (PUT (mem heap_b1)
       65572 17) 65584 17) 65588 4056) 69640 4056\<rparr>"

definition heap_b3 :: heap_state where
  "heap_b3 = heap_b2\<lparr>mem := PUT (PUT (PUT (PUT (mem heap_b2)
       65588 17) 65600 17) 65604 4040) 69640 4040\<rparr>"

definition heap_b4 :: heap_state where
  "heap_b4 = heap_b3\<lparr>mem := PUT (PUT (mem heap_b3) 65548 24) 65568 24\<rparr>"

definition heap_b5 :: heap_state where
  "heap_b5 = heap_b4\<lparr>mem := PUT (PUT (PUT (PUT (mem heap_b4)
       65548 9) 65552 9) 65556 16) 65568 16\<rparr>"

definition mem_b_copied :: memory where
  "mem_b_copied = memcpy (mem heap_b5) 65552 65576 16"

definition mem_b_freed :: memory where
  "mem_b_freed = PUT (PUT mem_b_copied 65572 16) 65584 16"

definition heap_b6 :: heap_state where
  "heap_b6 = heap_b5\<lparr>mem := PUT (PUT mem_b_freed 65584 16) 65556 16\<rparr>"

text \<open>
  The memory \<open>heap2m\<close> would have after a copy of the usable payload size of \<open>a\<close>,
  8 bytes, only.
\<close>

definition mem2_copied8 :: memory where
  "mem2_copied8 = memcpy (mem heap2m) 65568 65552 8"

section \<open>Basic facts\<close>

subsection \<open>Words in memory\<close>

lemma GET_PUT_same: "GET (PUT m p v) p = v"
  unfolding GET_def PUT_def
  apply (rule bit_word_eqI)
  apply (auto simp add: bit_simps not_less)
  subgoal for n by (cases "24 \<le> n") simp_all
  done

lemma PUT_other: "a < p \<or> p + 4 \<le> a \<Longrightarrow> PUT m p v a = m a"
  by (auto simp add: PUT_def)

lemma GET_PUT_other: "q + 4 \<le> p \<or> p + 4 \<le> q \<Longrightarrow> GET (PUT m p v) q = GET m q"
  by (auto simp add: GET_def PUT_other)

subsection \<open>The packed word\<close>

lemma seven_mask: "(7::size_t) = mask 3"
  by (simp add: mask_eq_exp_minus_1)

lemma six_mask: "(6::size_t) = mask 3 AND NOT (mask 1)"
  by (simp add: mask_eq_exp_minus_1)

lemma and7_iff: "(s :: size_t) AND 7 = 0 \<longleftrightarrow> 8 dvd unat s"
proof -
  have "s AND 7 = 0 \<longleftrightarrow> unat (take_bit 3 s) = 0"
    by (simp add: seven_mask take_bit_eq_mask unsigned_eq_0_iff)
  also have "\<dots> \<longleftrightarrow> take_bit 3 (unat s) = 0"
    by (simp add: unsigned_take_bit_eq)
  also have "\<dots> \<longleftrightarrow> 8 dvd unat s"
    by (simp add: take_bit_eq_0_iff)
  finally show ?thesis .
qed

lemma and7_bit: "(s :: size_t) AND 7 = 0 \<Longrightarrow> n < 3 \<Longrightarrow> \<not> bit s n"
proof
  assume a: "s AND 7 = 0" "n < 3" "bit s n"
  then have "bit (s AND mask 3) n" by (simp add: bit_simps)
  with a(1) show False by (simp add: seven_mask)
qed

lemma PACK_size: "s AND 7 = 0 \<Longrightarrow> PACK s a AND NOT 7 = s"
  unfolding PACK_def seven_mask
  apply (rule bit_word_eqI)
  apply (auto simp add: bit_simps and7_bit[unfolded seven_mask])
  done

lemma PACK_alloc: "s AND 7 = 0 \<Longrightarrow> PACK s a AND 1 = a AND 1"
  unfolding PACK_def
  apply (rule bit_word_eqI)
  apply (auto simp add: bit_simps and7_bit)
  done

lemma PACK_reserved: "s AND 7 = 0 \<Longrightarrow> PACK s a AND 6 = 0"
  unfolding PACK_def six_mask
  apply (rule bit_word_eqI)
  apply (auto simp add: bit_simps and7_bit)
  done

lemma and1_mod2: "(a::size_t) AND 1 = a mod 2"
  by (simp add: and_one_eq)

lemma GET_SIZE_PUT_PACK: "s AND 7 = 0 \<Longrightarrow> GET_SIZE (PUT m p (PACK s a)) p = s"
  using PACK_size[of s a] by (simp add: GET_SIZE_def GET_PUT_same)

lemma GET_SIZE_PUT_other:
  "q + 4 \<le> p \<or> p + 4 \<le> q \<Longrightarrow> GET_SIZE (PUT m p v) q = GET_SIZE m q"
  by (simp add: GET_SIZE_def GET_PUT_other)

lemma GET_ALLOC_PUT_other:
  "q + 4 \<le> p \<or> p + 4 \<le> q \<Longrightarrow> GET_ALLOC (PUT m p v) q = GET_ALLOC m q"
  by (simp add: GET_ALLOC_def GET_PUT_other)

lemma and7_iff_uint: "(s :: size_t) AND 7 = 0 \<longleftrightarrow> 8 dvd uint s"
proof -
  have "s AND 7 = 0 \<longleftrightarrow> uint (take_bit 3 s) = 0"
    by (simp add: seven_mask take_bit_eq_mask unsigned_eq_0_iff)
  also have "\<dots> \<longleftrightarrow> take_bit 3 (uint s) = 0"
    by (simp add: unsigned_take_bit_eq)
  also have "\<dots> \<longleftrightarrow> 8 dvd uint s"
    by (simp add: take_bit_eq_0_iff)
  finally show ?thesis .
qed

lemma and7_sub: "(c::size_t) AND 7 = 0 \<Longrightarrow> a AND 7 = 0 \<Longrightarrow> (c - a) AND 7 = 0"
proof -
  assume "c AND 7 = 0" "a AND 7 = 0"
  then have "8 dvd uint c - uint a" by (simp add: and7_iff_uint)
  moreover have "(8::int) dvd 2 ^ 32" by simp
  ultimately have "8 dvd (uint c - uint a) mod 2 ^ 32"
    by (simp only: dvd_mod_iff)
  then show ?thesis by (simp add: and7_iff_uint uint_word_ariths)
qed

lemma and7_add: "(c::size_t) AND 7 = 0 \<Longrightarrow> a AND 7 = 0 \<Longrightarrow> (c + a) AND 7 = 0"
proof -
  assume "c AND 7 = 0" "a AND 7 = 0"
  then have "8 dvd uint c + uint a" by (simp add: and7_iff_uint)
  moreover have "(8::int) dvd 2 ^ 32" by simp
  ultimately have "8 dvd (uint c + uint a) mod 2 ^ 32"
    by (simp only: dvd_mod_iff)
  then show ?thesis by (simp add: and7_iff_uint uint_word_ariths)
qed

lemma GET_SIZE_and7: "GET_SIZE m p AND 7 = 0"
  unfolding GET_SIZE_def seven_mask
  by (rule bit_word_eqI) (auto simp add: bit_simps)

lemma and7_ge8: "(a::size_t) AND 7 = 0 \<Longrightarrow> 0 < a \<Longrightarrow> 8 \<le> uint a"
proof -
  assume h: "a AND 7 = 0" "0 < a"
  then have "8 dvd uint a" by (simp add: and7_iff_uint)
  moreover from h have "0 < uint a" by (simp add: word_less_def)
  ultimately show "8 \<le> uint a" by (rule zdvd_imp_le)
qed

subsection \<open>The two branches of \<open>place\<close>\<close>

lemma place_split_eq:
  assumes c: "GET_SIZE m (HDRP bp) = c" and ac: "a \<le> c" and a8: "a AND 7 = 0" and a0: "0 < a"
    and sp: "16 \<le> uint c - uint a"
  shows "place m bp a = PUT (PUT (PUT (PUT m (bp - 4) (PACK a 1)) (bp + uint a - 8) (PACK a 1))
           (bp + uint a - 4) (PACK (c - a) 0)) (bp + uint c - 8) (PACK (c - a) 0)"
proof -
  have c8: "c AND 7 = 0" using c GET_SIZE_and7 by blast
  have ca8: "(c - a) AND 7 = 0" using c8 a8 by (rule and7_sub)
  have ua: "8 \<le> uint a" using a8 a0 by (rule and7_ge8)
  have sub: "uint (c - a) = uint c - uint a" using ac by (simp add: uint_sub_if' word_le_def)
  have br: "16 \<le> c - a" using sp sub by (simp add: word_le_def)
  show ?thesis
    using ua sp sub br c a8 ca8 
    by (simp add: place_def Let_def HDRP_def FTRP_def NEXT_BLKP_def GET_SIZE_PUT_PACK
          GET_SIZE_PUT_other)
qed

lemma place_nosplit_eq:
  assumes c: "GET_SIZE m (HDRP bp) = c" and ac: "a \<le> c" 
    and sp: "\<not> 16 \<le> uint c - uint a"
  shows "place m bp a = PUT (PUT m (bp - 4) (PACK c 1)) (bp + uint c - 8) (PACK c 1)"
proof -
  have c8: "c AND 7 = 0" using c GET_SIZE_and7 by blast
  have sub: "uint (c - a) = uint c - uint a" using ac by (simp add: uint_sub_if' word_le_def)
  have br: "\<not> 16 \<le> c - a" using sp sub by (simp add: word_le_def)
  show ?thesis
    using sp sub br c c8 
    by (simp add: place_def Let_def HDRP_def FTRP_def NEXT_BLKP_def GET_SIZE_PUT_PACK
          GET_SIZE_PUT_other)
qed

section \<open>Facts about well-formed heaps\<close>

subsection \<open>Layouts\<close>

text \<open>
  Blocks of a layout lie side by side: each within the bounds of the whole, and two
  different ones apart from each other.
\<close>

lemma total_simps [simp]:
  "total [] = 0" "total (b # bs) = uint (fst b) + total bs" "total (xs @ ys) = total xs + total ys"
  by (simp_all add: total_def)

lemma total_nonneg: "0 \<le> total bs"
  by (induction bs) simp_all

lemma layout_append: "layout p (xs @ ys) = layout p xs @ layout (p + total xs) ys"
  by (induction xs arbitrary: p) (auto simp add: add.assoc)

lemma layout_bounds:
  "(q, sz, al) \<in> set (layout p bs) \<Longrightarrow> p \<le> q \<and> q + uint sz \<le> p + total bs"
proof (induction bs arbitrary: p)
  case Nil
  then show ?case by simp
next
  case (Cons b bs)
  obtain z a where b: "b = (z, a)" by (cases b)
  show ?case
  proof (cases "(q, sz, al) = (p, z, a)")
    case True
    then show ?thesis using b total_nonneg[of bs] by simp
  next
    case False
    then have "(q, sz, al) \<in> set (layout (p + uint z) bs)" using Cons.prems b by auto
    from Cons.IH[OF this] have "p + uint z \<le> q" "q + uint sz \<le> p + uint z + total bs"
      by simp_all
    moreover have "total (b # bs) = uint z + total bs" using b by simp
    moreover have "0 \<le> uint z" by simp
    ultimately show ?thesis by linarith
  qed
qed

lemma layout_split:
  "(q, sz, al) \<in> set (layout p bs) \<Longrightarrow> \<exists>pre post. bs = pre @ (sz, al) # post \<and> q = p + total pre"
proof (induction bs arbitrary: p)
  case Nil
  then show ?case by simp
next
  case (Cons b bs)
  obtain z a where b: "b = (z, a)" by (cases b)
  show ?case
  proof (cases "(q, sz, al) = (p, z, a)")
    case True
    then have "b # bs = [] @ (sz, al) # bs \<and> q = p + total []" using b by simp
    then show ?thesis by blast
  next
    case False
    then have "(q, sz, al) \<in> set (layout (p + uint z) bs)" using Cons.prems b by auto
    from Cons.IH[OF this] obtain pre post where
      "bs = pre @ (sz, al) # post" "q = p + uint z + total pre" by blast
    then have "b # bs = (b # pre) @ (sz, al) # post \<and> q = p + total (b # pre)" using b by simp
    then show ?thesis by blast
  qed
qed

lemma layout_mem: "(p + total pre, sz, al) \<in> set (layout p (pre @ (sz, al) # post))"
  by (simp add: layout_append)

lemma layout_disjoint:
  "(q1, s1, a1) \<in> set (layout p bs) \<Longrightarrow> (q2, s2, a2) \<in> set (layout p bs) \<Longrightarrow>
   (q1, s1, a1) \<noteq> (q2, s2, a2) \<Longrightarrow> q1 + uint s1 \<le> q2 \<or> q2 + uint s2 \<le> q1"
proof (induction bs arbitrary: p)
  case Nil
  then show ?case by simp
next
  case (Cons b bs)
  obtain z a where b: "b = (z, a)" by (cases b)
  consider (h1) "(q1, s1, a1) = (p, z, a)" "(q2, s2, a2) \<in> set (layout (p + uint z) bs)"
    | (h2) "(q2, s2, a2) = (p, z, a)" "(q1, s1, a1) \<in> set (layout (p + uint z) bs)"
    | (tl) "(q1, s1, a1) \<in> set (layout (p + uint z) bs)" "(q2, s2, a2) \<in> set (layout (p + uint z) bs)"
    using Cons.prems b by auto
  then show ?case
  proof cases
    case h1
    then show ?thesis using layout_bounds[OF h1(2)] by simp
  next
    case h2
    then show ?thesis using layout_bounds[OF h2(2)] by simp
  next
    case tl
    then show ?thesis using Cons.IH Cons.prems(3) by blast
  qed
qed

subsection \<open>Blocks and the bytes they depend on\<close>

lemma GET_cong: "(\<And>x. p \<le> x \<Longrightarrow> x < p + 4 \<Longrightarrow> m' x = m x) \<Longrightarrow> GET m' p = GET m p"
  by (simp add: GET_def)

lemma block_ok_frame:
  assumes "block_ok m (q, sz, al)"
    and "\<And>x. q - 4 \<le> x \<Longrightarrow> x < q \<Longrightarrow> m' x = m x"
    and "\<And>x. q + uint sz - 8 \<le> x \<Longrightarrow> x < q + uint sz - 4 \<Longrightarrow> m' x = m x"
  shows "block_ok m' (q, sz, al)"
proof -
  have "GET m' (q - 4) = GET m (q - 4)" using assms(2) by (intro GET_cong) simp_all
  moreover have "GET m' (q + uint sz - 8) = GET m (q + uint sz - 8)"
    using assms(3) by (intro GET_cong) simp_all
  ultimately show ?thesis using assms(1) by (simp add: block_ok_def HDRP_def)
qed

lemma GET_PACK_fields:
  "GET m p = PACK sz (of_bool al) \<Longrightarrow> sz AND 7 = 0 \<Longrightarrow>
     GET_SIZE m p = sz \<and> GET_ALLOC m p = of_bool al"
  using PACK_size[of sz "of_bool al"] PACK_alloc[of sz "of_bool al"]
  by (cases al) (simp_all add: GET_SIZE_def GET_ALLOC_def)

lemma block_ok_fields:
  "block_ok m (q, sz, al) \<Longrightarrow>
     GET_SIZE m (q - 4) = sz \<and> GET_ALLOC m (q - 4) = of_bool al \<and>
     GET_SIZE m (q + uint sz - 8) = sz \<and> GET_ALLOC m (q + uint sz - 8) = of_bool al \<and>
     8 \<le> uint sz \<and> sz AND 7 = 0"
  using GET_PACK_fields[of m "q - 4" sz al] GET_PACK_fields[of m "q + uint sz - 8" sz al]
    and7_ge8[of sz]
  by (simp add: block_ok_def HDRP_def)

subsection \<open>The scan on a well-formed heap\<close>

lemma find_fit_loop_first_fit:
  "list_all (block_ok m) (layout p bs) \<Longrightarrow> GET m (p + total bs - 4) = PACK 0 1 \<Longrightarrow>
     find_fit_loop m adj p = Some (first_fit p adj bs)"
proof (induction bs arbitrary: p)
  case Nil
  then have "GET_SIZE m (p - 4) = 0" by (simp add: GET_SIZE_def PACK_def)
  then show ?case by (subst find_fit_loop.simps) (simp add: HDRP_def)
next
  case (Cons b bs)
  obtain z a where b: "b = (z, a)" by (cases b)
  have ok: "block_ok m (p, z, a)" and rest: "list_all (block_ok m) (layout (p + uint z) bs)"
    using Cons.prems(1) b by simp_all
  have ep: "GET m (p + uint z + total bs - 4) = PACK 0 1" using Cons.prems(2) b by (simp add: add.assoc)
  note f = block_ok_fields[OF ok]
  have pos: "0 < z" using ok by (simp add: block_ok_def)
  show ?case
    using f pos Cons.IH[OF rest ep] b
    by (subst find_fit_loop.simps) (auto simp add: HDRP_def NEXT_BLKP_def)
qed

lemma first_fit_Some:
  "first_fit p adj bs = Some q \<Longrightarrow> \<exists>c. (q, c, False) \<in> set (layout p bs) \<and> adj \<le> c"
proof (induction bs arbitrary: p)
  case Nil
  then show ?case by simp
next
  case (Cons b bs)
  obtain z a where b: "b = (z, a)" by (cases b)
  show ?case
  proof (cases "\<not> a \<and> adj \<le> z")
    case True
    then show ?thesis using Cons.prems b by auto
  next
    case False
    then have "first_fit (p + uint z) adj bs = Some q" using Cons.prems b by auto
    from Cons.IH[OF this] show ?thesis using b by auto
  qed
qed

subsection \<open>\<open>place\<close> on a well-formed heap\<close>

text \<open>
  \<open>place\<close> writes inside the block it is given only, and leaves a well-formed heap in
  which that block is replaced by the blocks \<open>placed\<close>.
\<close>

lemma place_frame:
  assumes c: "GET_SIZE m (HDRP q) = c" and ac: "a \<le> c" and a8: "a AND 7 = 0" and a0: "0 < a"
    and x: "x < q - 4 \<or> q + uint c - 4 \<le> x"
  shows "place m q a x = m x"
proof -
  have ua: "8 \<le> uint a" using a8 a0 by (rule and7_ge8)
  have uc: "uint a \<le> uint c" using ac by (simp add: word_le_def)
  show ?thesis
  proof (cases "16 \<le> uint c - uint a")
    case True
    show ?thesis using True ua uc x
      by (auto simp add: place_split_eq[OF c ac a8 a0 True] PUT_other)
  next
    case False
    show ?thesis using False ua uc x
      by (auto simp add: place_nosplit_eq[OF c ac False] PUT_other)
  qed
qed

lemma total_placed: "a \<le> c \<Longrightarrow> total (placed c a) = uint c"
  by (simp add: placed_def uint_sub_if' word_le_def)

lemma place_blocks:
  assumes c: "GET_SIZE m (HDRP q) = c" and ac: "a \<le> c" and a8: "a AND 7 = 0" and a0: "0 < a"
  shows "list_all (block_ok (place m q a)) (layout q (placed c a))"
proof -
  have c8: "c AND 7 = 0" using c GET_SIZE_and7 by blast
  have ca8: "(c - a) AND 7 = 0" using c8 a8 by (rule and7_sub)
  have ua: "8 \<le> uint a" using a8 a0 by (rule and7_ge8)
  have uc: "uint a \<le> uint c" using ac by (simp add: word_le_def)
  have sub: "uint (c - a) = uint c - uint a" using ac by (simp add: uint_sub_if' word_le_def)
  have c0: "0 < c" using a0 ac by simp
  show ?thesis
  proof (cases "16 \<le> uint c - uint a")
    case True
    then have "0 < uint (c - a)" using sub by simp
    then have ca0: "0 < c - a" by (simp add: word_less_def)
    show ?thesis using True ua uc sub a8 ca8 a0 ca0
      by (simp add: placed_def place_split_eq[OF c ac a8 a0 True] block_ok_def HDRP_def
          GET_PUT_same GET_PUT_other)
  next
    case False
    show ?thesis using False ua uc c8 c0
      by (simp add: placed_def place_nosplit_eq[OF c ac False] block_ok_def HDRP_def
          GET_PUT_same GET_PUT_other)
  qed
qed

lemma block_ok_outside:
  assumes ok: "block_ok m (q, sz, al)"
    and fr: "\<And>x. x < lo \<or> hi \<le> x \<Longrightarrow> m' x = m x"
    and out: "q + uint sz - 4 \<le> lo \<or> hi \<le> q - 4"
  shows "block_ok m' (q, sz, al)"
proof -
  have "8 \<le> uint sz" using block_ok_fields[OF ok] by simp
  then show ?thesis using out by (intro block_ok_frame[OF ok] fr) auto
qed

lemma list_all_block_ok_outside:
  assumes ok: "list_all (block_ok m) (layout p bs)"
    and fr: "\<And>x. x < lo \<or> hi \<le> x \<Longrightarrow> m' x = m x"
    and out: "p + total bs - 4 \<le> lo \<or> hi \<le> p - 4"
  shows "list_all (block_ok m') (layout p bs)"
  unfolding list_all_iff
proof
  fix b assume b: "b \<in> set (layout p bs)"
  obtain q sz al where e: "b = (q, sz, al)" by (cases b)
  have okb: "block_ok m (q, sz, al)" using ok b e by (simp add: list_all_iff)
  have "p \<le> q \<and> q + uint sz \<le> p + total bs" using layout_bounds b e by blast
  then have "q + uint sz - 4 \<le> lo \<or> hi \<le> q - 4" using out by auto
  then show "block_ok m' b" using block_ok_outside[OF okb fr] e by blast
qed

lemma wf_heapD:
  assumes "wf_heap s bs"
  shows "list_all (block_ok (mem s)) (layout (heap_listp s) ((8, True) # bs))"
    and "GET (mem s) (HDRP (mem_brk s)) = PACK 0 1"
    and "mem_brk s = heap_listp s + 8 + total bs"
    and "8 \<le> heap_listp s" and "mem_brk s \<le> mem_max_addr s" and "mem_max_addr s \<le> 2 ^ 32"
  using assms unfolding wf_heap_def by blast+

lemma wf_heapI:
  assumes "list_all (block_ok (mem s)) (layout (heap_listp s) ((8, True) # bs))"
    and "GET (mem s) (HDRP (mem_brk s)) = PACK 0 1"
    and "mem_brk s = heap_listp s + 8 + total bs"
    and "8 \<le> heap_listp s" and "mem_brk s \<le> mem_max_addr s" and "mem_max_addr s \<le> 2 ^ 32"
  shows "wf_heap s bs"
  using assms unfolding wf_heap_def by blast

lemma place_wf:
  assumes wf: "wf_heap s (pre @ (c, False) # post)"
    and q: "q = heap_listp s + 8 + total pre"
    and ac: "a \<le> c" and a8: "a AND 7 = 0" and a0: "0 < a"
  shows "wf_heap (s\<lparr>mem := place (mem s) q a\<rparr>) (pre @ placed c a @ post)"
proof -
  let ?m = "mem s" and ?H = "heap_listp s"
  let ?m' = "place ?m q a"
  have all: "list_all (block_ok ?m) (layout ?H ((8, True) # pre))"
    "block_ok ?m (q, c, False)"
    "list_all (block_ok ?m) (layout (q + uint c) post)"
    using wf_heapD(1)[OF wf] q by (simp_all add: layout_append add.assoc)
  have c: "GET_SIZE ?m (HDRP q) = c" using block_ok_fields[OF all(2)] by (simp add: HDRP_def)
  have fr: "\<And>x. x < q - 4 \<or> q + uint c - 4 \<le> x \<Longrightarrow> ?m' x = ?m x"
    using place_frame[OF c ac a8 a0] by blast
  have pre': "list_all (block_ok ?m') (layout ?H ((8, True) # pre))"
  proof (rule list_all_block_ok_outside[OF all(1) fr])
    show "heap_listp s + total ((8, True) # pre) - 4 \<le> q - 4 \<or> q + uint c - 4 \<le> heap_listp s - 4"
      using q by simp
  qed
  have post': "list_all (block_ok ?m') (layout (q + uint c) post)"
  proof (rule list_all_block_ok_outside[OF all(3) fr])
    show "q + uint c + total post - 4 \<le> q - 4 \<or> q + uint c - 4 \<le> q + uint c - 4"
      by simp
  qed
  have new': "list_all (block_ok ?m') (layout q (placed c a))"
    by (rule place_blocks[OF c ac a8 a0])
  have tp: "total (placed c a) = uint c" by (rule total_placed[OF ac])
  have eq: "layout ?H ((8, True) # pre @ placed c a @ post) =
      layout ?H ((8, True) # pre) @ layout q (placed c a) @ layout (q + uint c) post"
    using layout_append[of ?H "(8, True) # pre" "placed c a @ post"]
      layout_append[of q "placed c a" post] tp q
    by (simp add: add.assoc)
  have lay: "list_all (block_ok ?m') (layout ?H ((8, True) # pre @ placed c a @ post))"
    unfolding eq using pre' new' post' by simp
  have brk: "mem_brk s = q + uint c + total post" using wf_heapD(3)[OF wf] q by simp
  have ep0: "GET ?m (HDRP (mem_brk s)) = PACK 0 1" by (rule wf_heapD(2)[OF wf])
  have "GET ?m' (HDRP (mem_brk s)) = GET ?m (HDRP (mem_brk s))"
    unfolding HDRP_def using brk total_nonneg[of post] by (intro GET_cong fr) simp
  then have ep: "GET ?m' (HDRP (mem_brk s)) = PACK 0 1"
    using ep0 by simp
  have tot: "mem_brk s = ?H + 8 + total (pre @ placed c a @ post)"
    using brk q tp by simp
  note bnd = wf_heapD(4-6)[OF wf]
  have sel: "mem (s\<lparr>mem := ?m'\<rparr>) = ?m'" "heap_listp (s\<lparr>mem := ?m'\<rparr>) = ?H"
    "mem_brk (s\<lparr>mem := ?m'\<rparr>) = mem_brk s" "mem_max_addr (s\<lparr>mem := ?m'\<rparr>) = mem_max_addr s"
    by simp_all
  show ?thesis
    by (rule wf_heapI) (simp_all only: sel lay ep tot[symmetric] bnd)
qed

subsection \<open>\<open>extend_heap\<close> on a well-formed heap\<close>

text \<open>
  The new block is appended after the last block, or merged with it when it is free;
  the bytes before the old epilogue header, but for the header of a free last block,
  do not change.
\<close>

lemma GET_PUT_eq: "q = p \<Longrightarrow> GET (PUT m p v) q = v"
  by (simp add: GET_PUT_same)

lemma words_of_bytes:
  assumes "(e :: size_t) AND 7 = 0"
  shows "(e div 4) mod 2 = 0" and "(e div 4) * 4 = e"
proof -
  have d: "8 dvd uint e" using assms by (simp add: and7_iff_uint)
  then obtain k where k: "uint e = 8 * k" by (auto simp add: dvd_def)
  have "uint ((e div 4) mod 2) = 0"
    using k by (simp add: uint_mod uint_div)
  then show "(e div 4) mod 2 = 0" by (simp add: unsigned_eq_0_iff)
  have "uint ((e div 4) * 4) = uint e"
    using k uint_lt2p[of e] uint_ge_0[of e] by (simp add: uint_word_ariths uint_div)
  then show "(e div 4) * 4 = e" by (rule word_uint_eqI)
qed

lemma coalesce_new_block:
  assumes prev: "block_ok m (lq, psz, pa)" and B: "B = lq + uint psz"
    and e8: "e AND 7 = 0" and e0: "0 < e" and nov: "\<not> pa \<Longrightarrow> uint psz + uint e < 2 ^ 32"
  defines "m3 \<equiv> PUT (PUT (PUT m (B - 4) (PACK e 0)) (B + uint e - 8) (PACK e 0))
                   (B + uint e - 4) (PACK 0 1)"
  shows "coalesce m3 B =
     (if pa then (B, m3)
      else (lq, PUT (PUT m3 (B + uint e - 8) (PACK (e + psz) 0)) (lq - 4) (PACK (e + psz) 0)))"
proof -
  note f = block_ok_fields[OF prev]
  have ue: "8 \<le> uint e" using e8 e0 by (rule and7_ge8)
  have up: "8 \<le> uint psz" using f by simp
  have pf: "GET_SIZE m3 (B - 8) = psz" "GET_ALLOC m3 (B - 8) = of_bool pa"
    using f ue up B by (simp_all add: m3_def GET_SIZE_PUT_other GET_ALLOC_PUT_other)
  have ph: "GET_SIZE m3 (lq - 4) = psz"
    using f ue up B by (simp_all add: m3_def GET_SIZE_PUT_other)
  have own: "GET_SIZE m3 (B - 4) = e"
    using ue e8 by (simp add: m3_def GET_SIZE_PUT_other GET_SIZE_PUT_PACK)
  have nx: "GET_ALLOC m3 (B + uint e - 4) = 1"
    by (simp add: m3_def GET_ALLOC_def GET_PUT_same PACK_def)
  show ?thesis
  proof (cases pa)
    case True
    then show ?thesis using pf ph own nx B
      by (simp add: coalesce_def Let_def PREV_BLKP_def NEXT_BLKP_def FTRP_def HDRP_def)
  next
    case False
    then show ?thesis using pf ph own nx B ue up
      by (simp add: coalesce_def Let_def PREV_BLKP_def NEXT_BLKP_def FTRP_def HDRP_def
          GET_SIZE_PUT_other)
  qed
qed

lemma keeps_allocatedI:
  assumes "heap_listp s1 = heap_listp s"
    and "\<And>q z. (q, z, True) \<in> set (layout (heap_listp s + 8) bs) \<Longrightarrow>
           (q, z, True) \<in> set (layout (heap_listp s + 8) bs1)"
    and "\<And>q z x. (q, z, True) \<in> set (layout (heap_listp s + 8) bs) \<Longrightarrow>
           q - 4 \<le> x \<Longrightarrow> x < q + uint z - 4 \<Longrightarrow> mem s1 x = mem s x"
  shows "keeps_allocated s bs s1 bs1"
  using assms unfolding keeps_allocated_def by blast

lemma extend_heap_wf:
  assumes wf: "wf_heap s bs" and e8: "e AND 7 = 0" and e0: "0 < e"
    and res: "extend_heap s (e div 4) = (Some bp, s1)"
  shows "\<exists>bs1 c. wf_heap s1 bs1 \<and> keeps_allocated s bs s1 bs1 \<and>
           (bp, c, False) \<in> set (layout (heap_listp s + 8) bs1) \<and> e \<le> c"
proof -
  let ?m = "mem s" and ?H = "heap_listp s" and ?B = "mem_brk s"
  note w = wf_heapD[OF wf]
  have ue: "8 \<le> uint e" using e8 e0 by (rule and7_ge8)
  obtain pre0 psz pa where c0: "(8, True) # bs = pre0 @ [(psz, pa)]"
    by (metis append_butlast_last_id list.distinct(1) surj_pair)
  define lq where "lq = ?H + total pre0"
  have tot: "8 + total bs = total pre0 + uint psz"
    using arg_cong[OF c0, of total] by simp
  have B: "?B = lq + uint psz" using w(3) tot by (simp add: lq_def)
  have lay0: "list_all (block_ok ?m) (layout ?H pre0)" and prev: "block_ok ?m (lq, psz, pa)"
    using w(1) unfolding c0 by (simp_all add: layout_append lq_def)
  note pf = block_ok_fields[OF prev]
  define m3 where "m3 = PUT (PUT (PUT ?m (?B - 4) (PACK e 0)) (?B + uint e - 8) (PACK e 0))
                   (?B + uint e - 4) (PACK 0 1)"
  have sb: "mem_sbrk s e = Some (?B, s\<lparr>mem_brk := ?B + uint e\<rparr>)" and cap: "?B + uint e \<le> mem_max_addr s"
    and np: "\<not> int_of_ptr ?B < 0"
    using res by (auto simp add: extend_heap_def words_of_bytes[OF e8] mem_sbrk_def split: if_splits)
  have ex: "extend_heap s (e div 4) =
      (case coalesce m3 ?B of (r, m4) \<Rightarrow> (Some r, s\<lparr>mem_brk := ?B + uint e, mem := m4\<rparr>))"
    using ue e8 np
    by (simp add: extend_heap_def words_of_bytes[OF e8] sb Let_def m3_def HDRP_def FTRP_def
        NEXT_BLKP_def GET_SIZE_PUT_PACK GET_SIZE_PUT_other)
  have lqH: "?H \<le> lq" using total_nonneg[of pre0] by (simp add: lq_def)
  have fr3: "\<And>x. x < ?B - 4 \<Longrightarrow> m3 x = ?m x"
    using ue by (simp add: m3_def PUT_other)
  have keep: "\<And>q z. (q, z, True) \<in> set (layout (?H + 8) bs) \<Longrightarrow> q + uint z \<le> ?B"
    using layout_bounds w(3) by fastforce
  show ?thesis
  proof (cases pa)
    case True
    have co: "coalesce m3 ?B = (?B, m3)"
      using coalesce_new_block[OF prev B e8 e0] True by (simp add: m3_def)
    have r: "bp = ?B" "s1 = s\<lparr>mem_brk := ?B + uint e, mem := m3\<rparr>"
      using res unfolding ex co by auto
    have old: "list_all (block_ok m3) (layout ?H ((8, True) # bs))"
    proof (rule list_all_block_ok_outside[OF w(1), where lo = "?B - 4" and hi = "?B + uint e"])
      show "\<And>x. x < ?B - 4 \<or> ?B + uint e \<le> x \<Longrightarrow> m3 x = ?m x"
        using ue by (auto simp add: m3_def PUT_other)
      show "?H + total ((8, True) # bs) - 4 \<le> ?B - 4 \<or> ?B + uint e \<le> ?H - 4"
        using w(3) by simp
    qed
    have new: "block_ok m3 (?B, e, False)"
      using ue e8 e0 by (simp add: block_ok_def m3_def HDRP_def GET_PUT_same GET_PUT_other)
    have lay: "list_all (block_ok m3) (layout ?H ((8, True) # bs @ [(e, False)]))"
      using old new layout_append[of ?H "(8, True) # bs" "[(e, False)]"] w(3)
      by (simp add: add.assoc)
    have ep: "GET m3 (HDRP (?B + uint e)) = PACK 0 1"
      by (simp add: m3_def HDRP_def GET_PUT_same)
    have wf1: "wf_heap s1 (bs @ [(e, False)])"
      unfolding r
      by (rule wf_heapI) (use lay ep w cap in \<open>simp_all add: add.assoc\<close>)
    have ka: "keeps_allocated s bs s1 (bs @ [(e, False)])"
    proof (rule keeps_allocatedI)
      show "heap_listp s1 = ?H" by (simp add: r)
      show "\<And>q z. (q, z, True) \<in> set (layout (?H + 8) bs) \<Longrightarrow>
           (q, z, True) \<in> set (layout (?H + 8) (bs @ [(e, False)]))"
        by (simp add: layout_append)
      fix q z x
      assume "(q, z, True) \<in> set (layout (?H + 8) bs)" "q - 4 \<le> x" "x < q + uint z - 4"
      then have "x < ?B - 4" using keep[of q z] by simp
      then show "mem s1 x = ?m x" using fr3 by (simp add: r)
    qed
    have mem: "(bp, e, False) \<in> set (layout (?H + 8) (bs @ [(e, False)]))"
      using r w(3) by (simp add: layout_append)
    show ?thesis using wf1 ka mem by blast
  next
    case False
    have "pre0 \<noteq> []" using c0 False by auto
    then obtain pre where pre0: "pre0 = (8, True) # pre" and bs: "bs = pre @ [(psz, False)]"
      using c0 False by (cases pre0) auto
    have lq: "lq = ?H + 8 + total pre" by (simp add: lq_def pre0)
    have nov: "uint psz + uint e < 2 ^ 32"
      using B cap w(4,6) total_nonneg[of pre] lq by simp
    have sum: "uint (e + psz) = uint e + uint psz" using nov by (simp add: uint_plus_if')
    have s8: "(e + psz) AND 7 = 0" using e8 pf by (simp add: and7_add)
    have up: "8 \<le> uint psz" using pf by simp
    have s0: "0 < e + psz" using sum ue up by (simp add: word_less_def)
    define m5 where "m5 = PUT (PUT m3 (?B + uint e - 8) (PACK (e + psz) 0)) (lq - 4) (PACK (e + psz) 0)"
    have co: "coalesce m3 ?B = (lq, m5)"
      using coalesce_new_block[OF prev B e8 e0] False nov by (simp add: m3_def m5_def)
    have r: "bp = lq" "s1 = s\<lparr>mem_brk := ?B + uint e, mem := m5\<rparr>"
      using res unfolding ex co by auto
    have fr5: "\<And>x. x < lq - 4 \<or> ?B + uint e \<le> x \<Longrightarrow> m5 x = ?m x"
      using ue up B by (auto simp add: m5_def m3_def PUT_other)
    have old: "list_all (block_ok m5) (layout ?H ((8, True) # pre))"
    proof (rule list_all_block_ok_outside[OF _ fr5])
      show "list_all (block_ok ?m) (layout ?H ((8, True) # pre))" using lay0 pre0 by simp
      show "?H + total ((8, True) # pre) - 4 \<le> lq - 4 \<or> ?B + uint e \<le> ?H - 4"
        using lq by simp
    qed
    have new: "block_ok m5 (lq, e + psz, False)"
      using ue up B s8 s0 sum
      by (simp add: block_ok_def m5_def HDRP_def GET_PUT_eq GET_PUT_other)
    have lay: "list_all (block_ok m5) (layout ?H ((8, True) # pre @ [(e + psz, False)]))"
      using old new layout_append[of ?H "(8, True) # pre" "[(e + psz, False)]"] lq
      by (simp add: add.assoc)
    have ep: "GET m5 (HDRP (?B + uint e)) = PACK 0 1"
      using ue up B by (simp add: m5_def m3_def HDRP_def GET_PUT_same GET_PUT_other)
    have wf1: "wf_heap s1 (pre @ [(e + psz, False)])"
      unfolding r
      by (rule wf_heapI) (use lay ep w cap sum bs in \<open>simp_all add: add.assoc\<close>)
    have ka: "keeps_allocated s bs s1 (pre @ [(e + psz, False)])"
    proof (rule keeps_allocatedI)
      show "heap_listp s1 = ?H" by (simp add: r)
      show "\<And>q z. (q, z, True) \<in> set (layout (?H + 8) bs) \<Longrightarrow>
           (q, z, True) \<in> set (layout (?H + 8) (pre @ [(e + psz, False)]))"
        by (auto simp add: bs layout_append)
      fix q z x
      assume a: "(q, z, True) \<in> set (layout (?H + 8) bs)" "q - 4 \<le> x" "x < q + uint z - 4"
      then have "(q, z, True) \<in> set (layout (?H + 8) pre)" by (auto simp add: bs layout_append)
      then have "q + uint z \<le> lq" using layout_bounds lq by fastforce
      then have "x < lq - 4" using a by simp
      then show "mem s1 x = ?m x" using fr5 by (simp add: r)
    qed
    have mem: "(bp, e + psz, False) \<in> set (layout (?H + 8) (pre @ [(e + psz, False)]))"
      using r lq by (simp add: layout_append)
    have le: "e \<le> e + psz" using sum by (simp add: word_le_def)
    show ?thesis using wf1 ka mem le by blast
  qed
qed

subsection \<open>\<open>mm_malloc\<close> on a well-formed heap\<close>

text \<open>
  For a request of at most \<open>2^31 - 16\<close> bytes the adjusted size neither wraps around
  nor is negative as an \<open>int\<close>. Then \<open>mm_malloc\<close> leaves a well-formed heap, returns an
  allocated block of it that holds the request and was not allocated before, and
  keeps every allocated block as it was.
\<close>

lemma sint_small: "uint (w :: size_t) < 2 ^ 31 \<Longrightarrow> sint w = uint w"
proof -
  assume a: "uint w < 2 ^ 31"
  have "- (2 ^ 31) \<le> uint w" by (rule order_trans[OF _ uint_ge_0]) simp
  then have "signed_take_bit 31 (uint w) = uint w"
    using a by (intro signed_take_bit_int_eq_self) simp_all
  then show ?thesis by (simp add: sint_uint)
qed

lemma adjusted_size_facts:
  assumes "0 < sz" and "uint sz \<le> 2 ^ 31 - 16"
  shows "adjusted_size sz AND 7 = 0" and "16 \<le> uint (adjusted_size sz)"
    and "uint sz + 8 \<le> uint (adjusted_size sz)" and "uint (adjusted_size sz) < 2 ^ 31"
proof -
  have u: "uint (adjusted_size sz) = (if uint sz \<le> 8 then 16 else 8 * ((uint sz + 15) div 8))"
  proof (cases "sz \<le> 8")
    case True
    then show ?thesis by (simp add: adjusted_size_def word_le_def)
  next
    case False
    have "uint (sz + 8 + 7) = uint sz + 15"
      using assms(2) by (simp add: uint_word_ariths)
    moreover have "0 \<le> uint sz" by simp
    moreover have "uint sz \<le> 2147483632" using assms(2) by simp
    ultimately have "0 \<le> 8 * ((uint sz + 15) div 8)"
      "8 * ((uint sz + 15) div 8) < 4294967296"
      by presburger+
    then have "8 * ((uint sz + 15) div 8) mod 2 ^ 32 = 8 * ((uint sz + 15) div 8)"
      by (intro mod_pos_pos_trivial) simp_all
    moreover note \<open>uint (sz + 8 + 7) = uint sz + 15\<close>
    ultimately have "uint (8 * ((sz + 8 + 7) div 8)) = 8 * ((uint sz + 15) div 8)"
      by (simp add: uint_word_ariths uint_div)
    then show ?thesis using False by (simp add: adjusted_size_def word_le_def)
  qed
  show "16 \<le> uint (adjusted_size sz)" "uint sz + 8 \<le> uint (adjusted_size sz)"
    "uint (adjusted_size sz) < 2 ^ 31"
    using assms(2) unfolding u by auto
  have "8 dvd uint (adjusted_size sz)" unfolding u by simp
  then show "adjusted_size sz AND 7 = 0" by (simp add: and7_iff_uint)
qed

lemma MAX_int_facts:
  assumes "a AND 7 = 0" and "uint a < 2 ^ 31"
  shows "MAX_int a CHUNKSIZE AND 7 = 0" and "a \<le> MAX_int a CHUNKSIZE" and "0 < MAX_int a CHUNKSIZE"
proof -
  have sa: "sint a = uint a" using assms(2) by (rule sint_small)
  have sc: "sint (4096 :: size_t) = 4096" by simp
  show "MAX_int a CHUNKSIZE AND 7 = 0" using assms(1) by (simp add: MAX_int_def)
  show "a \<le> MAX_int a CHUNKSIZE" using sa by (simp add: MAX_int_def word_le_def)
  show "0 < MAX_int a CHUNKSIZE" using sa by (auto simp add: MAX_int_def word_less_def)
qed

lemma keeps_allocated_trans:
  assumes "keeps_allocated s bs s1 bs1" and "keeps_allocated s1 bs1 s2 bs2"
  shows "keeps_allocated s bs s2 bs2"
proof (rule keeps_allocatedI)
  have h: "heap_listp s1 = heap_listp s" "heap_listp s2 = heap_listp s1"
    using assms by (simp_all add: keeps_allocated_def)
  show "heap_listp s2 = heap_listp s" using h by simp
  fix q z assume a: "(q, z, True) \<in> set (layout (heap_listp s + 8) bs)"
  then have b: "(q, z, True) \<in> set (layout (heap_listp s1 + 8) bs1)"
    using assms(1) h unfolding keeps_allocated_def by simp
  then show "(q, z, True) \<in> set (layout (heap_listp s + 8) bs2)"
    using assms(2) h unfolding keeps_allocated_def by simp
  fix x assume x: "q - 4 \<le> x" "x < q + uint z - 4"
  have "mem s1 x = mem s x" using assms(1) a x unfolding keeps_allocated_def by blast
  moreover have "mem s2 x = mem s1 x" using assms(2) b x unfolding keeps_allocated_def by blast
  ultimately show "mem s2 x = mem s x" by simp
qed

lemma place_keeps:
  assumes wf: "wf_heap s bs" and fb: "(q, c, False) \<in> set (layout (heap_listp s + 8) bs)"
    and ac: "a \<le> c" and a8: "a AND 7 = 0" and a0: "0 < a"
  shows "\<exists>bs1 n. wf_heap (s\<lparr>mem := place (mem s) q a\<rparr>) bs1 \<and>
           keeps_allocated s bs (s\<lparr>mem := place (mem s) q a\<rparr>) bs1 \<and>
           (q, n, True) \<in> set (layout (heap_listp s + 8) bs1) \<and> a \<le> n \<and>
           (\<forall>q' z. (q', z, True) \<in> set (layout (heap_listp s + 8) bs) \<longrightarrow> q' \<noteq> q)"
proof -
  let ?m = "mem s" and ?H = "heap_listp s"
  let ?s1 = "s\<lparr>mem := place ?m q a\<rparr>"
  obtain pre post where bs: "bs = pre @ (c, False) # post" and q: "q = ?H + 8 + total pre"
    using layout_split[OF fb] by blast
  let ?bs1 = "pre @ placed c a @ post"
  note w = wf_heapD[OF wf]
  have all: "list_all (block_ok ?m) (layout (?H + 8) bs)" using w(1) by simp
  have okq: "block_ok ?m (q, c, False)" using all fb by (simp add: list_all_iff)
  have c: "GET_SIZE ?m (HDRP q) = c" and uc: "8 \<le> uint c"
    using block_ok_fields[OF okq] by (simp_all add: HDRP_def)
  have wf1: "wf_heap ?s1 ?bs1" using place_wf[OF wf[unfolded bs] q ac a8 a0] .
  have tp: "total (placed c a) = uint c" by (rule total_placed[OF ac])
  have disj: "\<And>q' z. (q', z, True) \<in> set (layout (?H + 8) bs) \<Longrightarrow>
      q' + uint z \<le> q \<or> q + uint c \<le> q'"
    using layout_disjoint[OF _ fb] by blast
  have ka: "keeps_allocated s bs ?s1 ?bs1"
  proof (rule keeps_allocatedI)
    show "heap_listp ?s1 = ?H" by simp
    show "\<And>q' z. (q', z, True) \<in> set (layout (?H + 8) bs) \<Longrightarrow>
           (q', z, True) \<in> set (layout (?H + 8) ?bs1)"
      using tp by (auto simp add: bs layout_append add.assoc)
    fix q' z x
    assume a: "(q', z, True) \<in> set (layout (?H + 8) bs)" "q' - 4 \<le> x" "x < q' + uint z - 4"
    then have "x < q - 4 \<or> q + uint c - 4 \<le> x" using disj[OF a(1)] by auto
    then show "mem ?s1 x = ?m x" using place_frame[OF c ac a8 a0] by simp
  qed
  have nq: "\<forall>q' z. (q', z, True) \<in> set (layout (?H + 8) bs) \<longrightarrow> q' \<noteq> q"
  proof (intro allI impI)
    fix q' z assume a: "(q', z, True) \<in> set (layout (?H + 8) bs)"
    then have "block_ok ?m (q', z, True)" using all by (simp add: list_all_iff)
    then have "8 \<le> uint z" using block_ok_fields by blast
    then show "q' \<noteq> q" using disj[OF a] uc by auto
  qed
  have "\<exists>n. (q, n, True) \<in> set (layout (?H + 8) ?bs1) \<and> a \<le> n"
  proof (cases "16 \<le> uint c - uint a")
    case True
    then have "(q, a, True) \<in> set (layout (?H + 8) ?bs1)"
      using q by (simp add: placed_def layout_append)
    then show ?thesis by auto
  next
    case False
    then have "(q, c, True) \<in> set (layout (?H + 8) ?bs1)"
      using q by (simp add: placed_def layout_append)
    then show ?thesis using ac by auto
  qed
  then show ?thesis using wf1 ka nq by blast
qed

lemma mm_malloc_wf:
  assumes wf: "wf_heap s bs" and sz: "0 < sz" "uint sz \<le> 2 ^ 31 - 16"
    and res: "mm_malloc s sz = Some (Some newp, s1)"
  shows "\<exists>bs1 n. wf_heap s1 bs1 \<and> keeps_allocated s bs s1 bs1 \<and>
           (newp, n, True) \<in> set (layout (heap_listp s + 8) bs1) \<and> uint sz + 8 \<le> uint n \<and>
           (\<forall>q z. (q, z, True) \<in> set (layout (heap_listp s + 8) bs) \<longrightarrow> q \<noteq> newp)"
proof -
  let ?m = "mem s" and ?H = "heap_listp s"
  let ?a = "adjusted_size sz"
  note w = wf_heapD[OF wf]
  note af = adjusted_size_facts[OF sz]
  have a0: "0 < ?a" using af(2) by (simp add: word_less_def)
  have sz0: "sz \<noteq> 0" using sz(1) by auto
  have pro: "block_ok ?m (?H, 8, True)" and all: "list_all (block_ok ?m) (layout (?H + 8) bs)"
    using w(1) by simp_all
  have ff: "find_fit s ?a = Some (first_fit (?H + 8) ?a bs)"
  proof -
    have "find_fit_loop ?m ?a (?H + 8) = Some (first_fit (?H + 8) ?a bs)"
      using w(2,3) by (intro find_fit_loop_first_fit[OF all]) (simp add: HDRP_def)
    then show ?thesis
      using block_ok_fields[OF pro]
      by (subst find_fit_def, subst find_fit_loop.simps) (simp add: HDRP_def NEXT_BLKP_def)
  qed
  show ?thesis
  proof (cases "first_fit (?H + 8) ?a bs")
    case (Some q)
    then have r: "newp = q" "s1 = s\<lparr>mem := place ?m q ?a\<rparr>"
      using res sz0 by (auto simp add: mm_malloc_def ff Let_def)
    obtain c where fb: "(q, c, False) \<in> set (layout (?H + 8) bs)" and ac: "?a \<le> c"
      using first_fit_Some[OF Some] by blast
    obtain bs1 n where p: "wf_heap s1 bs1" "keeps_allocated s bs s1 bs1"
      "(q, n, True) \<in> set (layout (?H + 8) bs1)" "?a \<le> n"
      "\<forall>q' z. (q', z, True) \<in> set (layout (?H + 8) bs) \<longrightarrow> q' \<noteq> q"
      using place_keeps[OF wf fb ac af(1) a0] unfolding r by blast
    have "uint sz + 8 \<le> uint n" using af(3) p(4) by (simp add: word_le_def)
    then show ?thesis using p(1,2,3,5) unfolding r by blast
  next
    case None
    let ?e = "MAX_int ?a CHUNKSIZE"
    note mf = MAX_int_facts[OF af(1,4)]
    obtain r se where ex: "extend_heap s (?e div 4) = (r, se)" by (cases "extend_heap s (?e div 4)")
    have r: "r = Some newp" "s1 = se\<lparr>mem := place (mem se) newp ?a\<rparr>"
      using res sz0 ex by (auto simp add: mm_malloc_def ff None Let_def split: option.splits)
    obtain bse c where e: "wf_heap se bse" "keeps_allocated s bs se bse"
      "(newp, c, False) \<in> set (layout (?H + 8) bse)" "?e \<le> c"
      using extend_heap_wf[OF wf mf(1,3) ex[unfolded r]] by blast
    have He: "heap_listp se = ?H" using e(2) by (simp add: keeps_allocated_def)
    have ac: "?a \<le> c" using mf(2) e(4) by simp
    obtain bs1 n where p: "wf_heap s1 bs1" "keeps_allocated se bse s1 bs1"
      "(newp, n, True) \<in> set (layout (?H + 8) bs1)" "?a \<le> n"
      "\<forall>q' z. (q', z, True) \<in> set (layout (?H + 8) bse) \<longrightarrow> q' \<noteq> newp"
      using place_keeps[OF e(1) e(3)[folded He] ac af(1) a0] unfolding r He by blast
    have ka: "keeps_allocated s bs s1 bs1" using e(2) p(2) by (rule keeps_allocated_trans)
    have "uint sz + 8 \<le> uint n" using af(3) p(4) by (simp add: word_le_def)
    moreover have "\<forall>q z. (q, z, True) \<in> set (layout (?H + 8) bs) \<longrightarrow> q \<noteq> newp"
      using e(2) p(5) unfolding keeps_allocated_def by blast
    ultimately show ?thesis using p(1,3) ka by blast
  qed
qed

subsection \<open>\<open>mm_free\<close> on a well-formed heap\<close>

text \<open>
  What \<open>mm_free\<close> writes, by the flags of the two neighbours; the last case is the one
  of line 228 of the source, where the new size leaves out the size of the freed block.
  In every case the writes stay within the freed block and its free neighbours, so
  every other block keeps its bytes.
\<close>

lemma mm_free_mem_eq:
  assumes own: "block_ok m (ptr, osz, oa)"
    and prev: "block_ok m (ptr - uint psz, psz, pa)"
    and nh: "GET m (ptr + uint osz - 4) = PACK nsz (of_bool na)" and n8: "nsz AND 7 = 0"
    and nf: "\<not> na \<longrightarrow> 8 \<le> uint nsz \<and> GET m (ptr + uint osz + uint nsz - 8) = PACK nsz 0"
    and nov: "uint psz + uint osz + uint nsz < 2 ^ 32"
  defines "m2 \<equiv> PUT (PUT m (ptr - 4) (PACK osz 0)) (ptr + uint osz - 8) (PACK osz 0)"
  shows "mm_free_mem m ptr =
     (if pa \<and> na then m2
      else if pa \<and> \<not> na then
        PUT (PUT m2 (ptr - 4) (PACK (osz + nsz) 0)) (ptr + uint osz + uint nsz - 8)
          (PACK (osz + nsz) 0)
      else if \<not> pa \<and> na then
        PUT (PUT m2 (ptr + uint osz - 8) (PACK (osz + psz) 0)) (ptr - uint psz - 4)
          (PACK (osz + psz) 0)
      else
        PUT (PUT m2 (ptr - uint psz - 4) (PACK (psz + nsz) 0)) (ptr + uint osz + uint nsz - 8)
          (PACK (psz + nsz) 0))"
proof -
  note fo = block_ok_fields[OF own] and fp = block_ok_fields[OF prev]
  have uo: "8 \<le> uint osz" and up: "8 \<le> uint psz" and o8: "osz AND 7 = 0" and p8: "psz AND 7 = 0"
    using fo fp by simp_all
  have un: "0 \<le> uint nsz" by simp
  have sz: "GET_SIZE m (ptr - 4) = osz" using fo by simp
  have nfl: "GET_SIZE m (ptr + uint osz - 4) = nsz" "GET_ALLOC m (ptr + uint osz - 4) = of_bool na"
    using GET_PACK_fields[OF nh n8] by simp_all
  have pft: "GET_SIZE m (ptr - 8) = psz" "GET_ALLOC m (ptr - 8) = of_bool pa"
    using fp by simp_all
  have phd: "GET_SIZE m (ptr - uint psz - 4) = psz" using fp by simp
  have "uint osz + uint nsz < 2 ^ 32" "uint osz + uint psz < 2 ^ 32"
    using nov uint_ge_0[of nsz] uint_ge_0[of psz] by linarith+
  then have s1: "uint (osz + nsz) = uint osz + uint nsz" "uint (osz + psz) = uint osz + uint psz"
    by (simp_all add: uint_plus_if')
  have a8: "(osz + nsz) AND 7 = 0" "(osz + psz) AND 7 = 0"
    using o8 p8 n8 by (simp_all add: and7_add)
  have m2f: "GET_SIZE m2 (ptr - 8) = psz" "GET_ALLOC m2 (ptr - 8) = of_bool pa"
    "GET_SIZE m2 (ptr - uint psz - 4) = psz" "GET_SIZE m2 (ptr - 4) = osz"
    "GET_SIZE m2 (ptr + uint osz - 4) = nsz" "GET_ALLOC m2 (ptr + uint osz - 4) = of_bool na"
    using pft phd nfl uo up o8
    by (simp_all add: m2_def GET_SIZE_PUT_other GET_ALLOC_PUT_other GET_SIZE_PUT_PACK)
  have st: "mm_free_mem m ptr = snd (coalesce m2 ptr)"
    using sz uo o8
    by (simp add: mm_free_mem_def Let_def HDRP_def FTRP_def m2_def GET_SIZE_PUT_PACK)
  show ?thesis
  proof (cases pa; cases na)
    assume "pa" "na"
    then show ?thesis unfolding st using m2f
      by (simp add: coalesce_def Let_def PREV_BLKP_def NEXT_BLKP_def FTRP_def HDRP_def)
  next
    assume "pa" "\<not> na"
    then show ?thesis unfolding st using m2f uo up s1 a8
      by (simp add: coalesce_def Let_def PREV_BLKP_def NEXT_BLKP_def FTRP_def HDRP_def
          GET_SIZE_PUT_PACK add.assoc)
  next
    assume "\<not> pa" "na"
    then show ?thesis unfolding st using m2f uo up s1 a8
      by (simp add: coalesce_def Let_def PREV_BLKP_def NEXT_BLKP_def FTRP_def HDRP_def
          GET_SIZE_PUT_other)
  next
    assume h: "\<not> pa" "\<not> na"
    have nn: "8 \<le> uint nsz" "GET m (ptr + uint osz + uint nsz - 8) = PACK nsz 0"
      using nf h by simp_all
    have "GET_SIZE m (ptr + uint osz + uint nsz - 8) = nsz"
      using nn(2) PACK_size[OF n8, of 0] by (simp add: GET_SIZE_def)
    then have nft: "GET_SIZE m2 (ptr + uint osz + uint nsz - 8) = nsz"
      using nn(1) uo by (simp add: m2_def GET_SIZE_PUT_other)
    show ?thesis unfolding st using h m2f nft uo up nn(1)
      by (simp add: coalesce_def Let_def PREV_BLKP_def NEXT_BLKP_def FTRP_def HDRP_def
          GET_SIZE_PUT_other)
  qed
qed

lemma mm_free_mem_frame:
  assumes own: "block_ok m (ptr, osz, oa)"
    and prev: "block_ok m (ptr - uint psz, psz, pa)"
    and nh: "GET m (ptr + uint osz - 4) = PACK nsz (of_bool na)" and n8: "nsz AND 7 = 0"
    and nf: "\<not> na \<longrightarrow> 8 \<le> uint nsz \<and> GET m (ptr + uint osz + uint nsz - 8) = PACK nsz 0"
    and nov: "uint psz + uint osz + uint nsz < 2 ^ 32"
    and x: "x < ptr - (if pa then 0 else uint psz) - 4 \<or>
            ptr + uint osz + (if na then 0 else uint nsz) - 4 \<le> x"
  shows "mm_free_mem m ptr x = m x"
proof -
  note fo = block_ok_fields[OF own] and fp = block_ok_fields[OF prev]
  have uo: "8 \<le> uint osz" and up: "8 \<le> uint psz" using fo fp by simp_all
  have un: "\<not> na \<Longrightarrow> 8 \<le> uint nsz" using nf by simp
  note eq = mm_free_mem_eq[OF own prev nh n8 nf nov]
  show ?thesis
    using x uo up un by (cases pa; cases na) (auto simp add: eq PUT_other)
qed

lemma payload_write_wf:
  assumes wf: "wf_heap s bs" and nb: "(q, n, al) \<in> set (layout (heap_listp s + 8) bs)"
    and fr: "\<And>x. x < q \<or> q + uint n - 8 \<le> x \<Longrightarrow> m' x = mem s x"
  shows "wf_heap (s\<lparr>mem := m'\<rparr>) bs"
proof -
  let ?m = "mem s" and ?H = "heap_listp s"
  note w = wf_heapD[OF wf]
  have nb0: "(q, n, al) \<in> set (layout ?H ((8, True) # bs))" using nb by simp
  have okn: "block_ok ?m (q, n, al)" using w(1) nb0 by (simp add: list_all_iff del: layout.simps)
  have un: "8 \<le> uint n" using block_ok_fields[OF okn] by simp
  have lay: "list_all (block_ok m') (layout ?H ((8, True) # bs))"
    unfolding list_all_iff
  proof
    fix b assume b: "b \<in> set (layout ?H ((8, True) # bs))"
    obtain q' z a where e: "b = (q', z, a)" by (cases b)
    have okb: "block_ok ?m (q', z, a)" using w(1) b e by (simp add: list_all_iff del: layout.simps)
    have uz: "8 \<le> uint z" using block_ok_fields[OF okb] by simp
    have "block_ok m' (q', z, a)"
    proof (cases "(q', z, a) = (q, n, al)")
      case True
      then show ?thesis using okb un by (intro block_ok_frame[OF okb] fr) auto
    next
      case False
      then have "q' + uint z \<le> q \<or> q + uint n \<le> q'"
        using layout_disjoint[OF b[unfolded e] nb0] by simp
      then show ?thesis using uz un by (intro block_ok_frame[OF okb] fr) auto
    qed
    then show "block_ok m' b" using e by simp
  qed
  have "q + uint n \<le> mem_brk s" using layout_bounds[OF nb] w(3) by simp
  then have "GET m' (HDRP (mem_brk s)) = GET ?m (HDRP (mem_brk s))"
    unfolding HDRP_def using un by (intro GET_cong fr) simp
  then have ep: "GET m' (HDRP (mem_brk s)) = PACK 0 1" using w(2) by simp
  show ?thesis
    by (rule wf_heapI) (use lay ep w in simp_all)
qed

lemma mm_free_other_block:
  assumes wf: "wf_heap s bs" and pb: "(ptr, osz, True) \<in> set (layout (heap_listp s + 8) bs)"
    and nb: "(q, n, True) \<in> set (layout (heap_listp s + 8) bs)" and ne: "q \<noteq> ptr"
    and x: "q - 4 \<le> x" "x < q + uint n - 4"
  shows "mm_free_mem (mem s) ptr x = mem s x"
proof -
  let ?m = "mem s" and ?H = "heap_listp s"
  note w = wf_heapD[OF wf]
  obtain pre post where bs: "bs = pre @ (osz, True) # post" and ptr: "ptr = ?H + 8 + total pre"
    using layout_split[OF pb] by blast
  obtain pre0 psz pa where c0: "(8, True) # pre = pre0 @ [(psz, pa)]"
    by (metis append_butlast_last_id list.distinct(1) surj_pair)
  have tot: "8 + total pre = total pre0 + uint psz"
    using arg_cong[OF c0, of total] by simp
  have whole: "(8, True) # bs = pre0 @ (psz, pa) # (osz, True) # post"
    using c0 bs by simp
  let ?L = "layout ?H ((8, True) # bs)"
  have pq: "?H + total pre0 = ptr - uint psz" using ptr tot by simp
  have pm: "(ptr - uint psz, psz, pa) \<in> set ?L"
    unfolding whole using layout_mem[of ?H pre0 psz pa] pq by simp
  have om: "(ptr, osz, True) \<in> set ?L" and nm: "(q, n, True) \<in> set ?L" using pb nb by simp_all
  have ok: "\<And>b. b \<in> set ?L \<Longrightarrow> block_ok ?m b" using w(1) by (simp add: list_all_iff del: layout.simps)
  note oko = ok[OF om] and okp = ok[OF pm] and okn = ok[OF nm]
  have uo: "8 \<le> uint osz" and up: "8 \<le> uint psz" and un: "8 \<le> uint n"
    using block_ok_fields[OF oko] block_ok_fields[OF okp] block_ok_fields[OF okn] by simp_all
  have dis: "q + uint n \<le> ptr \<or> ptr + uint osz \<le> q"
    using layout_disjoint[OF nm om] ne by simp
  have brk: "mem_brk s = ptr + uint osz + total post" using w(3) bs ptr by simp
  obtain nsz na where nx:
    "GET ?m (ptr + uint osz - 4) = PACK nsz (of_bool na)" "nsz AND 7 = 0"
    "\<not> na \<longrightarrow> 8 \<le> uint nsz \<and> GET ?m (ptr + uint osz + uint nsz - 8) = PACK nsz 0"
    "\<not> na \<longrightarrow> (ptr + uint osz, nsz, na) \<in> set ?L" "uint nsz \<le> total post"
  proof (cases post)
    case Nil
    then have "GET ?m (ptr + uint osz - 4) = PACK 0 (of_bool True)"
      using w(2) brk by (simp add: HDRP_def)
    then show ?thesis using that[of 0 True] total_nonneg[of post] by simp
  next
    case (Cons b post')
    obtain nsz na where b: "b = (nsz, na)" by (cases b)
    have "(8, True) # bs = ((8, True) # pre @ [(osz, True)]) @ (nsz, na) # post'"
      using bs Cons b by simp
    then have nm': "(ptr + uint osz, nsz, na) \<in> set ?L"
      using layout_mem[of ?H "(8, True) # pre @ [(osz, True)]" nsz na post'] ptr
      by (simp add: add.assoc)
    note f = block_ok_fields[OF ok[OF nm']]
    have g: "GET ?m (ptr + uint osz - 4) = PACK nsz (of_bool na)"
      "GET ?m (ptr + uint osz + uint nsz - 8) = PACK nsz (of_bool na)"
      using ok[OF nm'] by (simp_all add: block_ok_def HDRP_def)
    show ?thesis
    proof (rule that[of nsz na])
      show "GET ?m (ptr + uint osz - 4) = PACK nsz (of_bool na)" by (rule g(1))
      show "nsz AND 7 = 0" using f by simp
      show "\<not> na \<longrightarrow> 8 \<le> uint nsz \<and> GET ?m (ptr + uint osz + uint nsz - 8) = PACK nsz 0"
        using f g(2) by simp
      show "\<not> na \<longrightarrow> (ptr + uint osz, nsz, na) \<in> set ?L" using nm' by blast
      show "uint nsz \<le> total post" using Cons b total_nonneg[of post'] by simp
    qed
  qed
  have "uint psz + uint osz + uint nsz \<le> mem_brk s - ?H"
    using brk ptr tot nx(5) total_nonneg[of pre0] by simp
  then have nov: "uint psz + uint osz + uint nsz < 2 ^ 32" using w(4,5,6) by simp
  have out: "x < ptr - (if pa then 0 else uint psz) - 4 \<or>
            ptr + uint osz + (if na then 0 else uint nsz) - 4 \<le> x"
  proof (rule disjE[OF dis])
    assume a: "q + uint n \<le> ptr"
    have "\<not> pa \<Longrightarrow> q + uint n \<le> ptr - uint psz"
      using layout_disjoint[OF nm pm] a up un by auto
    then show ?thesis using a x by (cases pa) auto
  next
    assume a: "ptr + uint osz \<le> q"
    have "\<not> na \<Longrightarrow> ptr + uint osz + uint nsz \<le> q"
      using layout_disjoint[OF nm, of "ptr + uint osz" nsz na] nx(3,4) a un by auto
    then show ?thesis using a x by (cases na) auto
  qed
  show ?thesis
    by (rule mm_free_mem_frame[OF oko okp nx(1,2,3) nov out])
qed

subsection \<open>The concrete run, step by step\<close>

lemmas eval_defs =
  mem_sbrk_def int_of_ptr_def extend_heap_def coalesce_def Let_def mm_malloc_def find_fit_def
  find_fit_loop.simps GET_PUT_same GET_PUT_other GET_SIZE_def GET_ALLOC_def HDRP_def
  FTRP_def NEXT_BLKP_def PREV_BLKP_def PACK_def place_def adjusted_size_def MAX_int_def
  mm_free_def mm_free_mem_def

lemma run_init: "mm_init heap0 = (0, heap1)"
  by (simp add: heap0_def heap1_def mm_init_def eval_defs)

lemma run_malloc_a: "mm_malloc heap1 8 = Some (Some 65552, heap2)"
  by (simp add: heap1_def heap2_def eval_defs)

lemma run_malloc_b: "mm_malloc heap2 8 = Some (Some 65568, heap3)"
  by (simp add: heap1_def heap2_def heap3_def eval_defs)

lemma run_malloc_c: "mm_malloc heap3 8 = Some (Some 65584, heap4)"
  by (simp add: heap1_def heap2_def heap3_def heap4_def eval_defs)

lemma run_malloc_d: "mm_malloc heap4 8 = Some (Some 65600, heap5)"
  by (simp add: heap1_def heap2_def heap3_def heap4_def heap5_def eval_defs)

lemma run_free_a: "mm_free heap5 65552 = heap6"
  by (simp add: heap1_def heap2_def heap3_def heap4_def heap5_def heap6_def eval_defs)

lemma run_free_c: "mm_free heap6 65584 = heap7"
  by (simp add: heap1_def heap2_def heap3_def heap4_def heap5_def heap6_def heap7_def
      eval_defs)

lemma run_free_b: "mm_free heap7 65568 = heap8"
  by (simp add: heap1_def heap2_def heap3_def heap4_def heap5_def heap6_def heap7_def
      heap8_def mem7_b_freed_def eval_defs)

lemmas heap_defs = heap1_def heap2_def heap3_def heap4_def heap5_def heap6_def heap7_def
  heap8_def mem7_b_freed_def

subsection \<open>The scan of \<open>find_fit\<close>\<close>

lemma find_fit_loop_chain:
  "block_chain m bp bs \<Longrightarrow> find_fit_loop m adj bp = Some (List.find (fits m adj) bs)"
proof (induction bs arbitrary: bp)
  case Nil
  then show ?case by (subst find_fit_loop.simps) simp
next
  case (Cons b bs)
  then have b: "b = bp" and sz: "GET_SIZE m (HDRP bp) > 0"
    and rest: "block_chain m (NEXT_BLKP m bp) bs" by simp_all
  show ?case
  proof (cases "fits m adj bp")
    case True
    then show ?thesis using b sz
      by (subst find_fit_loop.simps) (simp add: fits_def)
  next
    case False
    then show ?thesis using b sz Cons.IH[OF rest]
      by (subst find_fit_loop.simps, fold fits_def) simp
  qed
qed

subsection \<open>The runs of \<open>mm_realloc\<close>, step by step\<close>

lemma GET_memcpy_outside:
  "p + 4 \<le> dst \<or> dst + uint n \<le> p \<Longrightarrow> GET (memcpy m dst src n) p = GET m p"
  by (auto simp add: GET_def memcpy_def)

lemma GET_memcpy_inside:
  "dst \<le> p \<and> p + 4 \<le> dst + uint n \<Longrightarrow> GET (memcpy m dst src n) p = GET m (src + (p - dst))"
  by (auto simp add: GET_def memcpy_def algebra_simps)

lemma GET_zero: "GET (\<lambda>_. 0) p = 0"
  by (simp add: GET_def)

lemma mm_realloc_Returned:
  "mm_malloc s sz = Some (Some newp, s1) \<Longrightarrow> GET_SIZE (mem s1) (HDRP ptr) = c \<Longrightarrow>
     mm_realloc s ptr sz =
       Some (Returned newp (mm_free (s1\<lparr>mem := memcpy (mem s1) newp ptr (min c sz)\<rparr>) ptr))"
  by (auto simp add: mm_realloc_def Let_def min_def)

lemmas word_defs = GET_PUT_same GET_PUT_other GET_memcpy_outside GET_memcpy_inside GET_zero

lemmas free_defs = mm_free_def mm_free_mem_def coalesce_def Let_def GET_PUT_same GET_PUT_other
  GET_SIZE_def GET_ALLOC_def HDRP_def FTRP_def NEXT_BLKP_def PREV_BLKP_def PACK_def

lemma heap2w_malloc: "mm_malloc heap2w 16 = Some (Some 65568, heap2m)"
  by (simp add: heap2w_def heap2m_def heap_defs eval_defs)

lemma heap2m_words:
  "GET (mem heap2m) 65540 = 9" "GET (mem heap2m) 65544 = 9" "GET (mem heap2m) 65548 = 17"
  "GET (mem heap2m) 65560 = 17" "GET (mem heap2m) 65564 = 25" "GET (mem heap2m) 65576 = 0"
  by (simp_all add: heap2w_def heap2m_def heap_defs word_defs)

lemma mem2_copied_words:
  "GET mem2_copied 65540 = 9" "GET mem2_copied 65544 = 9" "GET mem2_copied 65548 = 17"
  "GET mem2_copied 65564 = 25" "GET mem2_copied 65576 = 17"
  by (simp_all add: mem2_copied_def heap2m_words word_defs)

lemma heap2w_free: "mm_free_mem mem2_copied 65552 = PUT (PUT mem2_copied 65548 16) 65560 16"
  by (simp add: mem2_copied_words free_defs)

lemma heap2w_realloc: "mm_realloc heap2w 65552 16 = Some (Returned 65568 heap2r)"
proof -
  have c: "GET_SIZE (mem heap2m) (HDRP 65552) = 16"
    by (simp add: GET_SIZE_def HDRP_def heap2m_words)
  show ?thesis
    unfolding mm_realloc_Returned[OF heap2w_malloc c]
    by (simp add: mm_free_def heap2r_def heap2w_free[unfolded mem2_copied_def] mem2_copied_def)
qed

lemma heap2w_wf: "wf_heap heap2w [(16, True), (4080, False)]"
  by (simp add: wf_heap_def block_ok_def heap2w_def heap_defs eval_defs)

lemmas heap_b_defs = heap1_def heap_b1_def heap_b2_def heap_b3_def heap_b4_def heap_b5_def

lemma run_b1: "mm_malloc heap1 16 = Some (Some 65552, heap_b1)"
  by (simp add: heap_b_defs eval_defs)

lemma run_b2: "mm_malloc heap_b1 8 = Some (Some 65576, heap_b2)"
  by (simp add: heap_b_defs eval_defs)

lemma run_b3: "mm_malloc heap_b2 8 = Some (Some 65592, heap_b3)"
  by (simp add: heap_b_defs eval_defs)

lemma run_b4: "mm_free heap_b3 65552 = heap_b4"
  by (simp add: heap_b_defs eval_defs)

lemma run_b5: "mm_malloc heap_b4 0xFFFFFFFF = Some (Some 65552, heap_b5)"
  by (simp add: heap_b_defs eval_defs)

lemma heap_b4_wf: "wf_heap heap_b4 [(24, False), (16, True), (16, True), (4040, False)]"
  by (simp add: wf_heap_def block_ok_def heap_b_defs eval_defs)

lemma heap_b5_words:
  "GET (mem heap_b5) 65568 = 16" "GET (mem heap_b5) 65572 = 17" "GET (mem heap_b5) 65576 = 0"
  "GET (mem heap_b5) 65580 = 0" "GET (mem heap_b5) 65588 = 17"
  by (simp_all add: heap_b_defs word_defs)

lemma mem_b_freed_words:
  "GET mem_b_freed 65568 = 16" "GET mem_b_freed 65572 = 16" "GET mem_b_freed 65552 = 0"
  "GET mem_b_freed 65556 = 0" "GET mem_b_freed 65588 = 17"
  by (simp_all add: mem_b_freed_def mem_b_copied_def heap_b5_words word_defs)

lemma run_b_coalesce:
  "coalesce mem_b_freed 65576 = (65560, PUT (PUT mem_b_freed 65584 16) 65556 16)"
  by (simp add: mem_b_freed_words coalesce_def Let_def GET_PUT_same GET_PUT_other GET_SIZE_def
      GET_ALLOC_def HDRP_def FTRP_def NEXT_BLKP_def PREV_BLKP_def PACK_def)

lemma run_b_free:
  "mm_free_mem mem_b_copied 65576 = PUT (PUT mem_b_freed 65584 16) 65556 16"
proof -
  have "GET mem_b_copied 65572 = 17"
    by (simp add: mem_b_copied_def heap_b5_words word_defs)
  then have "mm_free_mem mem_b_copied 65576 = snd (coalesce mem_b_freed 65576)"
    by (simp add: mm_free_mem_def mem_b_freed_def Let_def GET_SIZE_def HDRP_def FTRP_def PACK_def
        GET_PUT_same)
  then show ?thesis by (simp add: run_b_coalesce)
qed

lemma run_b6: "mm_realloc heap_b4 65576 0xFFFFFFFF = Some (Returned 65552 heap_b6)"
proof -
  have c: "GET_SIZE (mem heap_b5) (HDRP 65576) = 16"
    by (simp add: GET_SIZE_def HDRP_def heap_b5_words)
  show ?thesis
    unfolding mm_realloc_Returned[OF run_b5 c]
    by (simp add: mm_free_def heap_b6_def run_b_free[unfolded mem_b_copied_def] mem_b_copied_def)
qed

lemma mem2_copied8_words:
  "GET mem2_copied8 65540 = 9" "GET mem2_copied8 65544 = 9" "GET mem2_copied8 65548 = 17"
  "GET mem2_copied8 65564 = 25" "GET mem2_copied8 65576 = 0"
  by (simp_all add: mem2_copied8_def heap2m_words word_defs)

lemma heap2w_free8: "mm_free_mem mem2_copied8 65552 = PUT (PUT mem2_copied8 65548 16) 65560 16"
  by (simp add: mem2_copied8_words free_defs)

section \<open>The claims\<close>

text \<open>
  C1 does not hold of the code. In the run above, when \<open>mm_free\<close> calls \<open>coalesce\<close> on
  \<open>b\<close>, both neighbours \<open>a\<close> and \<open>c\<close> are free and the three blocks have 16 bytes each.
  \<open>coalesce\<close> returns the previous block and writes the merged header at the previous
  block's header and the merged footer at the next block's footer, as the claim says,
  but the size it writes is 32, the sum of the neighbours' sizes only: line 228 of the
  source reads \<open>size =+ ...\<close> where the other branches read \<open>size += ...\<close>.
\<close>

theorem coalesce_both_free_drops_own_size:
  "GET_ALLOC mem7_b_freed (FTRP mem7_b_freed (PREV_BLKP mem7_b_freed 65568)) = 0 \<and>
   GET_ALLOC mem7_b_freed (HDRP (NEXT_BLKP mem7_b_freed 65568)) = 0 \<and>
   GET_SIZE mem7_b_freed (HDRP (PREV_BLKP mem7_b_freed 65568)) = 16 \<and>
   GET_SIZE mem7_b_freed (HDRP 65568) = 16 \<and>
   GET_SIZE mem7_b_freed (HDRP (NEXT_BLKP mem7_b_freed 65568)) = 16 \<and>
   coalesce mem7_b_freed 65568 = (PREV_BLKP mem7_b_freed 65568, mem heap8) \<and>
   GET (mem heap8) (HDRP (PREV_BLKP mem7_b_freed 65568)) = PACK 32 0 \<and>
   GET (mem heap8) (FTRP mem7_b_freed (NEXT_BLKP mem7_b_freed 65568)) = PACK 32 0 \<and>
   GET_SIZE (mem heap8) (HDRP (PREV_BLKP mem7_b_freed 65568)) \<noteq> 16 + 16 + 16"
  by (simp add: heap_defs eval_defs)

text \<open>
  C2 does not hold of the code. After the public operations of the run above, the
  first real block \<open>a\<close> has the header word 32 and, where that header says its footer
  is, the word 16: the test of \<open>checkblock\<close> fails.
\<close>

theorem header_footer_mismatch_after_free:
  "mm_init heap0 = (0, heap1) \<and> mm_malloc heap1 8 = Some (Some 65552, heap2) \<and>
   mm_malloc heap2 8 = Some (Some 65568, heap3) \<and>
   mm_malloc heap3 8 = Some (Some 65584, heap4) \<and>
   mm_malloc heap4 8 = Some (Some 65600, heap5) \<and>
   mm_free heap5 65552 = heap6 \<and> mm_free heap6 65584 = heap7 \<and>
   mm_free heap7 65568 = heap8 \<and>
   NEXT_BLKP (mem heap8) (heap_listp heap8) = 65552 \<and>
   GET (mem heap8) (HDRP 65552) = 32 \<and>
   GET (mem heap8) (FTRP (mem heap8) 65552) = 16 \<and>
   \<not> header_matches_footer (mem heap8) 65552"
  using run_init run_malloc_a run_malloc_b run_malloc_c run_malloc_d run_free_a run_free_c
    run_free_b
  by (simp add: header_matches_footer_def heap_defs eval_defs)

text \<open>
  C3 does not hold of the code. After the last \<open>mm_free\<close> of the run above, the free
  block \<open>a\<close> is followed, through \<open>NEXT_BLKP\<close>, by the block \<open>c\<close>, of 16 bytes, which is
  free too.
\<close>

theorem adjacent_free_blocks_after_free:
  "mm_free heap7 65568 = heap8 \<and>
   NEXT_BLKP (mem heap8) (heap_listp heap8) = 65552 \<and>
   GET_ALLOC (mem heap8) (HDRP 65552) = 0 \<and>
   NEXT_BLKP (mem heap8) 65552 = 65584 \<and>
   GET_SIZE (mem heap8) (HDRP 65584) = 16 \<and>
   GET_ALLOC (mem heap8) (HDRP 65584) = 0"
  using run_free_b
  by (simp add: heap_defs eval_defs)

text \<open>
  C4, as amended: in a well-formed heap, for a live allocated block \<open>ptr\<close> of block size
  \<open>osz\<close> and a new size \<open>sz \<le> 2^31 - 16\<close> for which \<open>mm_realloc\<close> returns \<open>newp\<close>:
  \<open>newp\<close> is the block its \<open>mm_malloc\<close> returned, and the final state is that of
  \<open>mm_free(ptr)\<close> after a copy of \<open>min osz sz\<close> bytes from \<open>ptr\<close> to \<open>newp\<close>, where \<open>osz\<close>
  is the size in the header of \<open>ptr\<close>, overhead included; and the first
  \<open>min (osz - 8) sz\<close> bytes of the payload of \<open>ptr\<close> before the call are the first bytes
  of the payload of \<open>newp\<close> after it.
\<close>

theorem mm_realloc_preserves:
  assumes wf: "wf_heap s bs"
    and live: "(ptr, osz, True) \<in> set (layout (heap_listp s + 8) bs)"
    and sz: "uint sz \<le> 2 ^ 31 - 16"
    and res: "mm_realloc s ptr sz = Some (Returned newp s')"
  shows "(\<exists>s1. mm_malloc s sz = Some (Some newp, s1) \<and>
            s' = mm_free (s1\<lparr>mem := memcpy (mem s1) newp ptr (min osz sz)\<rparr>) ptr) \<and>
         (\<forall>i. 0 \<le> i \<and> i < min (uint osz - 8) (uint sz) \<longrightarrow>
            mem s' (newp + i) = mem s (ptr + i))"
proof -
  let ?H = "heap_listp s"
  obtain s1 where mal: "mm_malloc s sz = Some (Some newp, s1)"
    and s': "s' = mm_free (s1\<lparr>mem := memcpy (mem s1) newp ptr
               (if sz < GET_SIZE (mem s1) (HDRP ptr) then sz else GET_SIZE (mem s1) (HDRP ptr))\<rparr>) ptr"
    using res by (auto simp add: mm_realloc_def Let_def split: option.splits prod.splits)
  have sz0: "0 < sz"
  proof (rule ccontr)
    assume "\<not> 0 < sz"
    then have "sz = 0" by (simp add: word_greater_zero_iff)
    then show False using mal by (simp add: mm_malloc_def)
  qed
  obtain bs1 n where m: "wf_heap s1 bs1" "keeps_allocated s bs s1 bs1"
    "(newp, n, True) \<in> set (layout (?H + 8) bs1)" "uint sz + 8 \<le> uint n"
    "\<forall>q z. (q, z, True) \<in> set (layout (?H + 8) bs) \<longrightarrow> q \<noteq> newp"
    using mm_malloc_wf[OF wf sz0 sz mal] by blast
  have H1: "heap_listp s1 = ?H" using m(2) by (simp add: keeps_allocated_def)
  have live1: "(ptr, osz, True) \<in> set (layout (?H + 8) bs1)"
    and same: "\<And>x. ptr - 4 \<le> x \<Longrightarrow> x < ptr + uint osz - 4 \<Longrightarrow> mem s1 x = mem s x"
    using m(2) live unfolding keeps_allocated_def by blast+
  have ne: "newp \<noteq> ptr" using m(5) live by blast
  have "block_ok (mem s1) (ptr, osz, True)"
    using wf_heapD(1)[OF m(1)] live1 H1 by (simp add: list_all_iff)
  then have hs: "GET_SIZE (mem s1) (HDRP ptr) = osz"
    using block_ok_fields by (simp add: HDRP_def)
  define cs where "cs = min osz sz"
  have cs: "(if sz < GET_SIZE (mem s1) (HDRP ptr) then sz else GET_SIZE (mem s1) (HDRP ptr)) = cs"
    unfolding hs cs_def by (auto simp add: min_def)
  have ucs: "uint cs = min (uint osz) (uint sz)"
    unfolding cs_def by (simp add: min_def word_le_def)
  define s2 where "s2 = s1\<lparr>mem := memcpy (mem s1) newp ptr cs\<rparr>"
  have s'2: "s' = mm_free s2 ptr" using s' unfolding cs s2_def .
  have wf2: "wf_heap s2 bs1"
    unfolding s2_def
  proof (rule payload_write_wf[OF m(1) m(3)[folded H1]])
    fix x assume "x < newp \<or> newp + uint n - 8 \<le> x"
    then show "memcpy (mem s1) newp ptr cs x = mem s1 x"
      using ucs m(4) by (auto simp add: memcpy_def)
  qed
  have H2: "heap_listp s2 = ?H" using H1 by (simp add: s2_def)
  have keepn: "\<And>x. newp - 4 \<le> x \<Longrightarrow> x < newp + uint n - 4 \<Longrightarrow> mem s' x = mem s2 x"
    unfolding s'2 mm_free_def
    using mm_free_other_block[OF wf2 live1[folded H2] m(3)[folded H2] ne] by simp
  have pres: "\<forall>i. 0 \<le> i \<and> i < min (uint osz - 8) (uint sz) \<longrightarrow>
            mem s' (newp + i) = mem s (ptr + i)"
  proof (intro allI impI)
    fix i assume i: "0 \<le> i \<and> i < min (uint osz - 8) (uint sz)"
    then have "mem s' (newp + i) = mem s2 (newp + i)" using m(4) by (intro keepn) simp_all
    also have "\<dots> = mem s1 (ptr + i)" using i ucs by (simp add: s2_def memcpy_def)
    also have "\<dots> = mem s (ptr + i)" using i by (intro same) simp_all
    finally show "mem s' (newp + i) = mem s (ptr + i)" .
  qed
  show ?thesis using mal s'2 pres unfolding s2_def cs_def by blast
qed


theorem mm_realloc_preserves_witness:
  "wf_heap heap2w [(16, True), (4080, False)] \<and>
   (65552, 16, True) \<in> set (layout (heap_listp heap2w + 8) [(16, True), (4080, False)]) \<and>
   uint (16 :: size_t) \<le> 2 ^ 31 - 16 \<and>
   mm_realloc heap2w 65552 16 = Some (Returned 65568 heap2r) \<and>
   mem heap2r (65568 + 0) = mem heap2w (65552 + 0) \<and>
   mem heap2r (65568 + 7) = mem heap2w (65552 + 7) \<and>
   mem heap2w (65552 + 0) = 0x41 \<and> mem heap2w (65552 + 7) = 0x48"
proof -
  have live: "(65552, 16, True) \<in> set (layout (heap_listp heap2w + 8) [(16, True), (4080, False)])"
    by (simp add: heap2w_def heap_defs)
  have sz: "uint (16 :: size_t) \<le> 2 ^ 31 - 16" by simp
  have "\<forall>i. 0 \<le> i \<and> i < min (uint (16 :: size_t) - 8) (uint (16 :: size_t)) \<longrightarrow>
      mem heap2r (65568 + i) = mem heap2w (65552 + i)"
    using mm_realloc_preserves[OF heap2w_wf live sz heap2w_realloc] by blast
  then have a: "\<And>i. 0 \<le> i \<Longrightarrow> i < 8 \<Longrightarrow> mem heap2r (65568 + i) = mem heap2w (65552 + i)"
    by simp
  have p: "mem heap2r (65568 + 0) = mem heap2w (65552 + 0)"
    "mem heap2r (65568 + 7) = mem heap2w (65552 + 7)"
    by (rule a; simp)+
  have v: "mem heap2w (65552 + 0) = 0x41" "mem heap2w (65552 + 7) = 0x48"
    by (simp_all add: heap2w_def PUT_def)
  show ?thesis using heap2w_wf live sz heap2w_realloc p v by (simp only: simp_thms)
qed

text \<open>
  C4, as stated, fails in two ways. First, the number of bytes copied is the block
  size of \<open>ptr\<close>, not its usable payload size: \<open>mm_realloc(a, 16)\<close> on \<open>heap2w\<close>, where
  \<open>a\<close> has a block of 16 bytes and so 8 usable bytes, copies 16 bytes, and the word at
  offset 8 of the new payload is then the old footer of \<open>a\<close>, 17, where a copy of 8
  bytes leaves 0. Second, for the largest sizes the returned block does not keep the
  payload: \<open>mm_realloc(b, 0xFFFFFFFF)\<close> on \<open>heap_b4\<close> returns 65552, an adjusted size having
  wrapped around to 8, and byte 4 of the payload of \<open>b\<close>, which was 0, is 16 in the
  returned block.
\<close>

theorem mm_realloc_copy_counterexample:
  "wf_heap heap2w [(16, True), (4080, False)] \<and>
   (65552, 16, True) \<in> set (layout (heap_listp heap2w + 8) [(16, True), (4080, False)]) \<and>
   mm_malloc heap2w 16 = Some (Some 65568, heap2m) \<and>
   mm_realloc heap2w 65552 16 = Some (Returned 65568 heap2r) \<and>
   heap2r = mm_free (heap2m\<lparr>mem := memcpy (mem heap2m) 65568 65552 16\<rparr>) 65552 \<and>
   GET (mem heap2r) (65568 + 8) = 17 \<and>
   GET (mem (mm_free (heap2m\<lparr>mem := memcpy (mem heap2m) 65568 65552 (16 - 8)\<rparr>) 65552))
     (65568 + 8) = 0 \<and>
   wf_heap heap_b4 [(24, False), (16, True), (16, True), (4040, False)] \<and>
   (65576, 16, True) \<in> set (layout (heap_listp heap_b4 + 8)
      [(24, False), (16, True), (16, True), (4040, False)]) \<and>
   mm_realloc heap_b4 65576 0xFFFFFFFF = Some (Returned 65552 heap_b6) \<and>
   mem heap_b4 (65576 + 4) = 0 \<and> mem heap_b6 (65552 + 4) = 16"
proof -
  have live: "(65552, 16, True) \<in> set (layout (heap_listp heap2w + 8) [(16, True), (4080, False)])"
    by (simp add: heap2w_def heap_defs)
  have r: "heap2r = mm_free (heap2m\<lparr>mem := memcpy (mem heap2m) 65568 65552 16\<rparr>) 65552"
    by (simp add: mm_free_def heap2r_def heap2w_free[unfolded mem2_copied_def] mem2_copied_def)
  have w16: "GET (mem heap2r) (65568 + 8) = 17"
    by (simp add: heap2r_def mem2_copied_words word_defs)
  have w8: "GET (mem (mm_free (heap2m\<lparr>mem := memcpy (mem heap2m) 65568 65552 (16 - 8)\<rparr>) 65552))
     (65568 + 8) = 0"
    by (simp add: mm_free_def heap2w_free8[unfolded mem2_copied8_def]
        mem2_copied8_words[unfolded mem2_copied8_def] word_defs)
  have liveb: "(65576, 16, True) \<in> set (layout (heap_listp heap_b4 + 8)
      [(24, False), (16, True), (16, True), (4040, False)])"
    by (simp add: heap_b_defs)
  have b4: "mem heap_b4 (65576 + 4) = 0"
    by (simp add: heap_b_defs PUT_def)
  have b6: "mem heap_b6 (65552 + 4) = 16"
    by (simp add: heap_b6_def PUT_def)
  show ?thesis
    using heap2w_wf live heap2w_malloc heap2w_realloc r w16 w8 heap_b4_wf liveb run_b6 b4 b6
    by (simp only: simp_thms)
qed

text \<open>
  C5, as amended: for every request size \<open>n\<close> with \<open>0 < n \<le> 2^32 - 16\<close> (so that
  \<open>n + 15\<close> does not wrap around in \<open>size_t\<close>), the adjusted block size is the maximum of
  the minimum block size 16 and \<open>n + 8\<close> rounded up to a multiple of 8.
\<close>

theorem adjusted_size_formula:
  "0 < n \<Longrightarrow> unat n \<le> 2 ^ 32 - 16 \<Longrightarrow>
     unat (adjusted_size n) = max 16 (((unat n + 8 + 7) div 8) * 8)"
  by (auto simp add: adjusted_size_def word_le_nat_alt unat_word_ariths unat_div)

theorem adjusted_size_formula_witness:
  "0 < (100 :: size_t) \<and> unat (100 :: size_t) \<le> 2 ^ 32 - 16 \<and>
     unat (adjusted_size 100) = max 16 (((unat (100 :: size_t) + 8 + 7) div 8) * 8)"
  using adjusted_size_formula[of 100] by simp

text \<open>
  C5, as stated, fails for the largest request sizes: at \<open>n = 2^32 - 7\<close> the sum
  \<open>n + 15\<close> wraps around to 8 and the adjusted size is 8, below the minimum block size.
\<close>

theorem adjusted_size_wraps_counterexample:
  "0 < (0xFFFFFFF9 :: size_t) \<and> adjusted_size 0xFFFFFFF9 = 8 \<and>
     unat (adjusted_size 0xFFFFFFF9)
       \<noteq> max 16 (((unat (0xFFFFFFF9 :: size_t) + 8 + 7) div 8) * 8)"
  by (simp add: adjusted_size_def)

text \<open>
  C6, as amended: for a block of size \<open>c\<close> and an adjusted request size \<open>a\<close> with
  \<open>0 < a \<le> c\<close> (\<open>a\<close> a multiple of 8, as every adjusted size is), \<open>place\<close> splits
  exactly when \<open>c - a \<ge> 16\<close>. When it splits, the block's start holds an allocated
  header and footer of size \<open>a\<close>, followed immediately by a free header and footer of
  size \<open>c - a\<close>; otherwise the whole block is marked allocated at size \<open>c\<close>. No other
  byte of memory changes.
\<close>

theorem place_splits_iff:
  assumes c: "GET_SIZE m (HDRP bp) = c" and ac: "a \<le> c" and a8: "8 dvd unat a" and a0: "0 < a"
  shows "if 16 \<le> uint c - uint a
         then GET (place m bp a) (HDRP bp) = PACK a 1 \<and>
              GET (place m bp a) (bp + uint a - 8) = PACK a 1 \<and>
              GET (place m bp a) (HDRP (bp + uint a)) = PACK (c - a) 0 \<and>
              GET (place m bp a) (bp + uint c - 8) = PACK (c - a) 0 \<and>
              (\<forall>x. x \<notin> {bp - 4 ..< bp} \<union> {bp + uint a - 8 ..< bp + uint a}
                     \<union> {bp + uint c - 8 ..< bp + uint c - 4} \<longrightarrow> place m bp a x = m x)
         else GET (place m bp a) (HDRP bp) = PACK c 1 \<and>
              GET (place m bp a) (bp + uint c - 8) = PACK c 1 \<and>
              (\<forall>x. x \<notin> {bp - 4 ..< bp} \<union> {bp + uint c - 8 ..< bp + uint c - 4}
                     \<longrightarrow> place m bp a x = m x)"
proof -
  have a7: "a AND 7 = 0" using a8 by (simp add: and7_iff)
  have ua: "8 \<le> uint a" using a7 a0 by (rule and7_ge8)
  have uc: "uint a \<le> uint c" using ac by (simp add: word_le_def)
  show ?thesis
  proof (cases "16 \<le> uint c - uint a")
    case True
    show ?thesis
      using True ua uc
      by (auto simp add: place_split_eq[OF c ac a7 a0 True] HDRP_def GET_PUT_same GET_PUT_other PUT_other)
  next
    case False
    show ?thesis
      using False ua uc
      by (auto simp add: place_nosplit_eq[OF c ac False] HDRP_def GET_PUT_same GET_PUT_other PUT_other)
  qed
qed

theorem place_splits_iff_witness:
  "GET_SIZE (mem heap1) (HDRP 65552) = 4096 \<and> (16 :: size_t) \<le> 4096 \<and>
     8 dvd unat (16 :: size_t) \<and> 0 < (16 :: size_t) \<and>
     16 \<le> uint (4096 :: size_t) - uint (16 :: size_t) \<and>
     GET (place (mem heap1) 65552 16) (HDRP 65552) = PACK 16 1 \<and>
     GET (place (mem heap1) 65552 16) (65552 + uint (16 :: size_t) - 8) = PACK 16 1 \<and>
     GET (place (mem heap1) 65552 16) (HDRP (65552 + uint (16 :: size_t))) = PACK (4096 - 16) 0 \<and>
     GET (place (mem heap1) 65552 16) (65552 + uint (4096 :: size_t) - 8) = PACK (4096 - 16) 0"
proof -
  have c: "GET_SIZE (mem heap1) (HDRP 65552) = 4096"
    by (simp add: heap1_def eval_defs)
  show ?thesis
    using c place_splits_iff[OF c, of 16] by simp
qed

text \<open>
  C6, as stated, fails for the adjusted size 0, which the size adjustment gives for the
  request \<open>0xFFFFFFF8\<close> (the sum \<open>n + 15\<close> wraps around to 7): on the fresh heap
  \<open>mm_malloc\<close> finds the free block of 4096 bytes at 65552 and calls \<open>place\<close> with 0.
  \<open>place\<close> takes the splitting branch, but the block's start does not hold an allocated
  header of size 0: the header of the remainder, written at the same address, leaves
  it free at 4096 bytes, and the footer of size 0 has overwritten the footer of the
  block before (here the prologue).
\<close>

theorem place_zero_size_counterexample:
  "adjusted_size 0xFFFFFFF8 = 0 \<and>
   mm_malloc heap1 0xFFFFFFF8 = Some (Some 65552, heap1\<lparr>mem := place (mem heap1) 65552 0\<rparr>) \<and>
   GET_SIZE (mem heap1) (HDRP 65552) = 4096 \<and> GET_ALLOC (mem heap1) (HDRP 65552) = 0 \<and>
   (0 :: size_t) \<le> 4096 \<and> 16 \<le> uint (4096 :: size_t) - uint (0 :: size_t) \<and>
   GET (place (mem heap1) 65552 0) (HDRP 65552) = PACK 4096 0 \<and>
   GET (place (mem heap1) 65552 0) (HDRP 65552) \<noteq> PACK 0 1 \<and>
   GET (mem heap1) (65552 - 8) = PACK 8 1 \<and>
   GET (place (mem heap1) 65552 0) (65552 - 8) = PACK 0 1"
  by (simp add: heap1_def eval_defs)

text \<open>
  C7: when the prologue written by \<open>mm_init\<close> is in place at \<open>heap_listp\<close> and \<open>bs\<close> are
  the blocks met by following \<open>NEXT_BLKP\<close> from the first real block up to the epilogue
  (the first block of size 0), \<open>find_fit\<close> returns, and its result is the first block of
  \<open>bs\<close> that is free and of size at least the adjusted size, or \<open>NULL\<close> (no fit) when
  \<open>bs\<close> has no such block. The scan itself starts at the prologue, which is allocated
  and so is never the result.
\<close>

theorem find_fit_first_fit:
  assumes pro: "GET (mem s) (HDRP (heap_listp s)) = PACK OVERHEAD 1"
    and ch: "block_chain (mem s) (NEXT_BLKP (mem s) (heap_listp s)) bs"
  shows "find_fit s adjsize = Some (List.find (fits (mem s) adjsize) bs)"
proof -
  have sz: "GET_SIZE (mem s) (HDRP (heap_listp s)) = 8"
    and al: "GET_ALLOC (mem s) (HDRP (heap_listp s)) = 1"
    using pro by (simp_all add: GET_SIZE_def GET_ALLOC_def PACK_def)
  then have "block_chain (mem s) (heap_listp s) (heap_listp s # bs)" 
    and "\<not> fits (mem s) adjsize (heap_listp s)"
    using ch by (simp_all add: fits_def)
  then show ?thesis
    using find_fit_loop_chain[of "mem s" "heap_listp s" "heap_listp s # bs" adjsize]
    by (simp add: find_fit_def)
qed

theorem find_fit_first_fit_witness:
  "GET (mem heap7) (HDRP (heap_listp heap7)) = PACK OVERHEAD 1 \<and>
   block_chain (mem heap7) (NEXT_BLKP (mem heap7) (heap_listp heap7))
     [65552, 65568, 65584, 65600, 65616] \<and>
   find_fit heap7 24 = Some (Some 65616) \<and> find_fit heap7 16 = Some (Some 65552) \<and>
   find_fit heap7 8192 = Some None"
proof -
  have pro: "GET (mem heap7) (HDRP (heap_listp heap7)) = PACK OVERHEAD 1"
    by (simp add: heap_defs eval_defs)
  have ch: "block_chain (mem heap7) (NEXT_BLKP (mem heap7) (heap_listp heap7))
     [65552, 65568, 65584, 65600, 65616]"
    by (simp add: heap_defs eval_defs del: find_fit_loop.simps)
  have f: "List.find (fits (mem heap7) 24) [65552, 65568, 65584, 65600, 65616] = Some 65616"
     "List.find (fits (mem heap7) 16) [65552, 65568, 65584, 65600, 65616] = Some 65552"
     "List.find (fits (mem heap7) 8192) [65552, 65568, 65584, 65600, 65616] = None"
    by (simp_all add: fits_def heap_defs eval_defs del: find_fit_loop.simps)
  have r1: "find_fit heap7 24 = Some (Some 65616)"
    using find_fit_first_fit[OF pro ch, of 24] by (simp only: f)
  have r2: "find_fit heap7 16 = Some (Some 65552)"
    using find_fit_first_fit[OF pro ch, of 16] by (simp only: f)
  have r3: "find_fit heap7 8192 = Some None"
    using find_fit_first_fit[OF pro ch, of 8192] by (simp only: f)
  show ?thesis
    using pro ch r1 r2 r3 by (simp only: simp_thms)
qed

text \<open>
  C8, as amended: a request of size 0, the only value of the unsigned \<open>size_t\<close> with
  \<open>size \<le> 0\<close>, returns \<open>NULL\<close> and leaves the whole state unchanged, the output
  included.
\<close>

theorem mm_malloc_zero:
  "sz \<le> 0 \<Longrightarrow> mm_malloc s sz = Some (None, s)"
  by (simp add: mm_malloc_def)

theorem mm_malloc_zero_witness:
  "(0 :: size_t) \<le> 0 \<and> mm_malloc heap1 0 = Some (None, heap1)"
  using mm_malloc_zero[of 0 heap1] by simp

text \<open>
  C8, as stated, fails for negative values: the parameter is a \<open>size_t\<close>, so \<open>-1\<close>
  arrives as \<open>0xFFFFFFFF\<close>, passes the guard, and (its adjusted size having wrapped
  around to 8) is served from the first free block of the fresh heap.
\<close>

theorem mm_malloc_negative_counterexample:
  "mm_init heap0 = (0, heap1) \<and> sint (0xFFFFFFFF :: size_t) = - 1 \<and>
   mm_malloc heap1 0xFFFFFFFF = Some (Some 65552,
     heap1\<lparr>mem := PUT (PUT (PUT (PUT (mem heap1) 65548 9) 65552 9) 65556 4088) 69640 4088\<rparr>) \<and>
   mm_malloc heap1 0xFFFFFFFF \<noteq> Some (None, heap1)"
  using run_init by (simp add: heap1_def eval_defs)

text \<open>
  C9: when the allocation inside \<open>mm_realloc\<close> fails, \<open>mm_realloc\<close> prints its message
  and leaves through \<open>exit(1)\<close>; it returns no pointer to its caller.
\<close>

theorem mm_realloc_exits_on_failure:
  "mm_malloc s sz = Some (None, s1) \<Longrightarrow>
     mm_realloc s ptr sz =
       Some (Exited 1 (s1\<lparr>stdout := stdout s1 @ [''ERROR: mm_malloc failed in mm_realloc'' @ [CHR 0x0A]]\<rparr>)) \<and>
     (\<forall>newp s'. mm_realloc s ptr sz \<noteq> Some (Returned newp s'))"
  by (simp add: mm_realloc_def)

theorem mm_realloc_exits_on_failure_witness:
  "mm_malloc heap2 2097152 = Some (None, heap2) \<and>
     mm_realloc heap2 65552 2097152 =
       Some (Exited 1 (heap2\<lparr>stdout := stdout heap2 @ [''ERROR: mm_malloc failed in mm_realloc'' @ [CHR 0x0A]]\<rparr>))"
proof -
  have f: "mm_malloc heap2 2097152 = Some (None, heap2)"
    by (simp add: heap_defs eval_defs)
  show ?thesis using f mm_realloc_exits_on_failure[OF f, of 65552] by simp
qed

text \<open>
  C10: for every size \<open>s\<close> that is a multiple of 8 and every allocation flag \<open>a\<close>, a word
  packed by \<open>PACK\<close> and stored in memory decodes to the same size and to the flag
  \<open>a mod 2\<close>, and its two reserved bits (bits 1 and 2) are zero.
\<close>

theorem PACK_roundtrip:
  "8 dvd unat s \<Longrightarrow>
     GET_SIZE (PUT m p (PACK s a)) p = s \<and>
     GET_ALLOC (PUT m p (PACK s a)) p = a mod 2 \<and>
     PACK s a AND 6 = 0"
  using PACK_size[of s a] PACK_alloc[of s a] PACK_reserved[of s a]
  by (simp add: GET_SIZE_def GET_ALLOC_def GET_PUT_same and7_iff[symmetric] and1_mod2)

theorem PACK_roundtrip_witness:
  "8 dvd unat (24 :: size_t) \<and>
     GET_SIZE (PUT (\<lambda>_. 0) 100 (PACK 24 3)) 100 = 24 \<and>
     GET_ALLOC (PUT (\<lambda>_. 0) 100 (PACK 24 3)) 100 = 1 \<and>
     PACK 24 3 AND 6 = (0 :: size_t)"
  using PACK_roundtrip[of 24 "\<lambda>_. 0" 100 3] by simp


end
